theory Spec2Isabelle
  imports Complex_Main
begin

section \<open>Data model (src/index.tsx, TYPES)\<close>

text \<open>
  Timestamps (\<^verbatim>\<open>UTCTimestamp\<close>) are whole seconds and are modelled as \<^typ>\<open>int\<close>.
  Prices are JavaScript numbers; they are modelled as \<^typ>\<open>real\<close>, so comparisons are
  exact and the rounding of IEEE arithmetic is not represented. Account balances and
  counters are whole numbers far below \<open>2^53\<close> and are modelled as \<^typ>\<open>int\<close> and
  \<^typ>\<open>nat\<close>.

  Record fields are global names in Isabelle, so each interface gets a prefix:
  \<open>c_\<close> for \<^verbatim>\<open>CandleData\<close>, \<open>sp_\<close> for \<^verbatim>\<open>StructurePoint\<close>, \<open>fvg_\<close> for
  \<^verbatim>\<open>FVG\<close>, \<open>ob_\<close> for \<^verbatim>\<open>OrderBlock\<close>, \<open>es_\<close> for \<^verbatim>\<open>EntrySignal\<close> and
  \<open>bs_\<close> for \<^verbatim>\<open>BacktestStats\<close>. The optional display fields of a candle
  (\<^verbatim>\<open>color\<close>, \<^verbatim>\<open>borderColor\<close>, \<^verbatim>\<open>wickColor\<close>) and the optional
  \<^verbatim>\<open>timeframe\<close> of a gap or zone are never written or read by the analysis
  functions and are left out.
\<close>

datatype SessionType = ASIA | LONDON | NEW_YORK | NONE

datatype Direction = Bullish | Bearish

datatype PointType = PH | PL | BOS | CHoCH | HH | HL | LH | LL

datatype Subtype = Standard | Breaker | Swing

datatype Side = LONG | SHORT

datatype BacktestResult = WIN | LOSS | PENDING

datatype TradingStyle = SCALP | DAY_TRADE

datatype PO3Phase = ACCUMULATION | MANIPULATION | DISTRIBUTION | PO3_NONE

record CandleData =
  c_time :: int
  c_open :: real
  c_high :: real
  c_low :: real
  c_close :: real

record StructurePoint =
  sp_time :: int
  sp_price :: real
  sp_type :: PointType
  sp_direction :: Direction

text \<open>
  The \<^verbatim>\<open>id\<close> of a gap or zone is a template string such as
  \<^verbatim>\<open>fvg-bull-${c2.time}\<close>; it is kept as the pair of the literal prefix and the
  timestamp that is spliced in.
\<close>

record FVG =
  fvg_id :: "string \<times> int"
  fvg_time :: int
  fvg_priceHigh :: real
  fvg_priceLow :: real
  fvg_direction :: Direction
  fvg_mitigated :: bool
  fvg_isSilverBullet :: bool

record OrderBlock =
  ob_id :: "string \<times> int"
  ob_time :: int
  ob_priceHigh :: real
  ob_priceLow :: real
  ob_direction :: Direction
  ob_mitigated :: bool
  ob_subtype :: Subtype

record EntrySignal =
  es_time :: int
  es_type :: Side
  es_price :: real
  es_score :: int
  es_confluences :: "string list"
  es_sl :: real
  es_tp :: real
  es_winProbability :: int
  es_tradingStyle :: TradingStyle
  es_po3Phase :: PO3Phase
  es_backtestResult :: "BacktestResult option"
  es_backtestPnL :: "int option"

record BacktestStats =
  bs_totalTrades :: nat
  bs_wins :: nat
  bs_losses :: nat
  bs_winRate :: real
  bs_netPnL :: int
  bs_profitFactor :: real
  bs_maxDrawdown :: int
  bs_equityCurve :: "int list"

section \<open>Utilities\<close>

text \<open>\<^verbatim>\<open>new Date(t * 1000).getUTCHours()\<close> for a timestamp of whole seconds.\<close>

definition getUTCHours :: "int \<Rightarrow> int" where
  "getUTCHours t = (t div 3600) mod 24"

definition getSession :: "int \<Rightarrow> SessionType" where
  "getSession hour =
     (if hour \<ge> 0 \<and> hour < 8 then ASIA
      else if hour \<ge> 7 \<and> hour < 16 then LONDON
      else if hour \<ge> 12 \<and> hour < 21 then NEW_YORK
      else NONE)"

definition determinePO3 :: "CandleData \<Rightarrow> SessionType \<Rightarrow> PO3Phase" where
  "determinePO3 candle session =
     (if session = ASIA then ACCUMULATION
      else if session = LONDON \<or> session = NEW_YORK then
        (let body = \<bar>c_close candle - c_open candle\<bar>;
             range = c_high candle - c_low candle
         in if body > range * 0.6 then DISTRIBUTION else MANIPULATION)
      else PO3_NONE)"

text \<open>
  The session bonus of the confluence score: \<^verbatim>\<open>if (session !== 'NONE') score += 1\<close>
  in \<^verbatim>\<open>detectEntries\<close>.
\<close>

definition sessionBonus :: "int \<Rightarrow> int" where
  "sessionBonus hour = (if getSession hour \<noteq> NONE then 1 else 0)"

section \<open>Array helpers\<close>

text \<open>
  \<^verbatim>\<open>xs.slice(-n)\<close>: the last \<open>n\<close> elements (all of them when there are fewer), and
  \<^verbatim>\<open>xs.slice(a, b)\<close> for \<open>0 \<le> a \<le> b\<close>.
\<close>

definition sliceLast :: "nat \<Rightarrow> 'a list \<Rightarrow> 'a list" where
  "sliceLast n xs = drop (length xs - n) xs"

definition slice :: "nat \<Rightarrow> nat \<Rightarrow> 'a list \<Rightarrow> 'a list" where
  "slice a b xs = take (b - a) (drop a xs)"

text \<open>\<^verbatim>\<open>xs.findIndex(P)\<close>; \<open>None\<close> stands for \<open>-1\<close>.\<close>

fun findIndex :: "('a \<Rightarrow> bool) \<Rightarrow> 'a list \<Rightarrow> nat option" where
  "findIndex P [] = None"
| "findIndex P (x # xs) = (if P x then Some 0 else map_option Suc (findIndex P xs))"

text \<open>
  \<^verbatim>\<open>xs[i]\<close> is \<^verbatim>\<open>undefined\<close> beyond the end of the array; reading a property of
  \<^verbatim>\<open>undefined\<close> throws. \<open>elemAt\<close> makes the out-of-range case explicit.
\<close>

definition elemAt :: "'a list \<Rightarrow> nat \<Rightarrow> 'a option" where
  "elemAt xs i = (if i < length xs then Some (xs ! i) else None)"

text \<open>\<^verbatim>\<open>Math.min(...xs)\<close> and \<^verbatim>\<open>Math.max(...xs)\<close> on a non-empty array.\<close>

definition Math_min :: "real list \<Rightarrow> real" where
  "Math_min xs = foldl min (hd xs) (tl xs)"

definition Math_max :: "real list \<Rightarrow> real" where
  "Math_max xs = foldl max (hd xs) (tl xs)"

section \<open>Swing structure: \<^verbatim>\<open>detectStructure\<close>\<close>

record Pivot =
  p_index :: nat
  p_price :: real

datatype PivotKind = High | Low

text \<open>
  The inner loop over \<open>j = 1 .. swingLength\<close> clears \<^verbatim>\<open>isHigh\<close> (\<^verbatim>\<open>isLow\<close>) as soon
  as one neighbour is not strictly lower (higher). The outer loop keeps
  \<open>swingLength \<le> i < length - swingLength\<close>, so every index read is inside the array.
\<close>

definition isHigh :: "CandleData list \<Rightarrow> nat \<Rightarrow> nat \<Rightarrow> bool" where
  "isHigh data swingLength i =
     list_all (\<lambda>j. \<not> (c_high (data ! i) \<le> c_high (data ! (i - j))
                       \<or> c_high (data ! i) \<le> c_high (data ! (i + j))))
       [1 ..< swingLength + 1]"

definition isLow :: "CandleData list \<Rightarrow> nat \<Rightarrow> nat \<Rightarrow> bool" where
  "isLow data swingLength i =
     list_all (\<lambda>j. \<not> (c_low (data ! i) \<ge> c_low (data ! (i - j))
                       \<or> c_low (data ! i) \<ge> c_low (data ! (i + j))))
       [1 ..< swingLength + 1]"

definition pivotHighs :: "CandleData list \<Rightarrow> nat \<Rightarrow> Pivot list" where
  "pivotHighs data swingLength =
     map (\<lambda>i. \<lparr>p_index = i, p_price = c_high (data ! i)\<rparr>)
       (filter (isHigh data swingLength) [swingLength ..< length data - swingLength])"

definition pivotLows :: "CandleData list \<Rightarrow> nat \<Rightarrow> Pivot list" where
  "pivotLows data swingLength =
     map (\<lambda>i. \<lparr>p_index = i, p_price = c_low (data ! i)\<rparr>)
       (filter (isLow data swingLength) [swingLength ..< length data - swingLength])"

text \<open>
  \<^verbatim>\<open>[...highs, ...lows].sort((a,b) => a.index - b.index)\<close>: the sort is stable, as
  \<^const>\<open>sort_key\<close> is, so a bar that is both a pivot high and a pivot low has its
  high first.
\<close>

definition allPivots :: "CandleData list \<Rightarrow> nat \<Rightarrow> (Pivot \<times> PivotKind) list" where
  "allPivots data swingLength =
     sort_key (\<lambda>p. p_index (fst p))
       (map (\<lambda>p. (p, High)) (pivotHighs data swingLength)
        @ map (\<lambda>p. (p, Low)) (pivotLows data swingLength))"

text \<open>
  \<^verbatim>\<open>xs[0]\<close>: \<^verbatim>\<open>undefined\<close> (here \<open>None\<close>) on the empty array.
\<close>

definition first :: "'a list \<Rightarrow> 'a option" where
  "first xs = (case xs of [] \<Rightarrow> None | x # _ \<Rightarrow> Some x)"

text \<open>
  One iteration of \<^verbatim>\<open>for (const p of allPivots)\<close>. The state is
  \<open>(lastHigh, lastLow, points)\<close>.
\<close>

definition structStep ::
  "CandleData list \<Rightarrow> Pivot option \<times> Pivot option \<times> StructurePoint list
     \<Rightarrow> Pivot \<times> PivotKind \<Rightarrow> Pivot option \<times> Pivot option \<times> StructurePoint list" where
  "structStep data st tp =
     (case st of (lastHigh, lastLow, points) \<Rightarrow>
      case tp of (p, ty) \<Rightarrow>
        let candle = data ! p_index p in
        if ty = High then
          (case lastHigh of
             None \<Rightarrow> (Some p, lastLow, points)
           | Some lh \<Rightarrow>
               if p_price p > p_price lh
               then (Some p, lastLow, points @ [\<lparr>sp_time = c_time candle, sp_price = p_price p,
                                                sp_type = HH, sp_direction = Bearish\<rparr>])
               else (Some p, lastLow, points @ [\<lparr>sp_time = c_time candle, sp_price = p_price p,
                                                sp_type = LH, sp_direction = Bearish\<rparr>]))
        else
          (case lastLow of
             None \<Rightarrow> (lastHigh, Some p, points)
           | Some ll \<Rightarrow>
               if p_price p < p_price ll
               then (lastHigh, Some p, points @ [\<lparr>sp_time = c_time candle, sp_price = p_price p,
                                                 sp_type = LL, sp_direction = Bullish\<rparr>])
               else (lastHigh, Some p, points @ [\<lparr>sp_time = c_time candle, sp_price = p_price p,
                                                 sp_type = HL, sp_direction = Bullish\<rparr>])))"

definition detectStructure :: "CandleData list \<Rightarrow> nat \<Rightarrow> StructurePoint list" where
  "detectStructure data swingLength =
     (let lastHigh = first (pivotHighs data swingLength);
          lastLow = first (pivotLows data swingLength)
      in snd (snd (foldl (structStep data) (lastHigh, lastLow, [])
                     (allPivots data swingLength))))"

section \<open>Fair value gaps: \<^verbatim>\<open>detectFVG\<close>\<close>

definition isSilverBulletHour :: "int \<Rightarrow> bool" where
  "isSilverBulletHour hour = (hour = 14 \<or> hour = 9 \<or> hour = 3)"

text \<open>
  The body of the first loop at index \<open>i\<close> (\<open>2 \<le> i < length\<close>): the gaps pushed for the
  triplet \<open>(data[i-2], data[i-1], data[i])\<close>, the bullish one first.
\<close>

definition fvgsAt :: "CandleData list \<Rightarrow> nat \<Rightarrow> FVG list" where
  "fvgsAt data i =
     (let c1 = data ! (i - 2); c2 = data ! (i - 1); c3 = data ! i;
          isSilverBullet = isSilverBulletHour (getUTCHours (c_time c2))
      in (if c_high c1 < c_low c3
          then [\<lparr>fvg_id = (''fvg-bull-'', c_time c2), fvg_time = c_time c2,
                  fvg_priceHigh = c_low c3, fvg_priceLow = c_high c1,
                  fvg_direction = Bullish, fvg_mitigated = False,
                  fvg_isSilverBullet = isSilverBullet\<rparr>]
          else [])
         @ (if c_low c1 > c_high c3
            then [\<lparr>fvg_id = (''fvg-bear-'', c_time c2), fvg_time = c_time c2,
                    fvg_priceHigh = c_low c1, fvg_priceLow = c_high c3,
                    fvg_direction = Bearish, fvg_mitigated = False,
                    fvg_isSilverBullet = isSilverBullet\<rparr>]
            else []))"

definition collectFVG :: "CandleData list \<Rightarrow> FVG list" where
  "collectFVG data = concat (map (fvgsAt data) [2 ..< length data])"

text \<open>
  \<^verbatim>\<open>for (const candle of futureCandles)\<close>: the first candle that trades through the
  far side of the gap sets \<^verbatim>\<open>mitigated\<close> and ends the scan.
\<close>

fun scanFVG :: "FVG \<Rightarrow> CandleData list \<Rightarrow> FVG" where
  "scanFVG fvg [] = fvg"
| "scanFVG fvg (candle # rest) =
     (if fvg_direction fvg = Bullish \<and> c_low candle < fvg_priceLow fvg
      then fvg\<lparr>fvg_mitigated := True\<rparr>
      else if fvg_direction fvg = Bearish \<and> c_high candle > fvg_priceHigh fvg
      then fvg\<lparr>fvg_mitigated := True\<rparr>
      else scanFVG fvg rest)"

definition futureCandles :: "CandleData list \<Rightarrow> FVG \<Rightarrow> CandleData list" where
  "futureCandles data fvg = filter (\<lambda>d. c_time d > fvg_time fvg) data"

definition detectFVG :: "CandleData list \<Rightarrow> FVG list" where
  "detectFVG data =
     filter (\<lambda>f. \<not> fvg_mitigated f)
       (map (\<lambda>fvg. scanFVG fvg (futureCandles data fvg)) (collectFVG data))"

section \<open>Impulse zones: \<^verbatim>\<open>detectOrderBlocks\<close>\<close>

text \<open>
  \<^verbatim>\<open>bodySizes.reduce((a, b) => a + b, 0) / bodySizes.length || 1\<close>. Division binds
  tighter than \<^verbatim>\<open>||\<close>, so the fallback \<open>1\<close> replaces the whole quotient when it
  is falsy: when it is \<^verbatim>\<open>NaN\<close> (\<open>0 / 0\<close>, the empty series) and when it is \<open>0\<close>.
\<close>

definition meanBody :: "CandleData list \<Rightarrow> real" where
  "meanBody data =
     (let bodySizes = map (\<lambda>d. \<bar>c_close d - c_open d\<bar>) (sliceLast 100 data);
          total = foldl (+) 0 bodySizes
      in if length bodySizes = 0 then 1
         else if total / real (length bodySizes) = 0 then 1
         else total / real (length bodySizes))"

definition IMPULSE_THRESHOLD :: "CandleData list \<Rightarrow> real \<Rightarrow> real" where
  "IMPULSE_THRESHOLD data thresholdMult = meanBody data * thresholdMult"

text \<open>
  The body of the candidate loop at index \<open>i\<close>. \<open>None\<close> is the \<^verbatim>\<open>TypeError\<close> that
  reading \<^verbatim>\<open>data[i]\<close> or \<^verbatim>\<open>data[i+1]\<close> beyond the end would raise.
\<close>

definition obsAt :: "CandleData list \<Rightarrow> real \<Rightarrow> nat \<Rightarrow> OrderBlock list option" where
  "obsAt data threshold i =
     (case elemAt data i of
        None \<Rightarrow> None
      | Some candle \<Rightarrow>
          (case elemAt data (i + 1) of
             None \<Rightarrow> None
           | Some nextCandle \<Rightarrow>
               (let moveUp = (c_close nextCandle - c_open nextCandle) > threshold;
                    moveDown = (c_open nextCandle - c_close nextCandle) > threshold
                in Some
                  ((if c_close candle < c_open candle \<and> moveUp
                       \<and> c_close nextCandle > c_high candle
                    then [\<lparr>ob_id = (''ob-bull-'', c_time candle), ob_time = c_time candle,
                            ob_priceHigh = c_high candle, ob_priceLow = c_low candle,
                            ob_direction = Bullish, ob_mitigated = False,
                            ob_subtype = Standard\<rparr>]
                    else [])
                   @ (if c_close candle > c_open candle \<and> moveDown
                         \<and> c_close nextCandle < c_low candle
                      then [\<lparr>ob_id = (''ob-bear-'', c_time candle), ob_time = c_time candle,
                              ob_priceHigh = c_high candle, ob_priceLow = c_low candle,
                              ob_direction = Bearish, ob_mitigated = False,
                              ob_subtype = Standard\<rparr>]
                      else [])))))"

fun collectOB :: "CandleData list \<Rightarrow> real \<Rightarrow> nat list \<Rightarrow> OrderBlock list option" where
  "collectOB data threshold [] = Some []"
| "collectOB data threshold (i # rest) =
     (case obsAt data threshold i of
        None \<Rightarrow> None
      | Some new \<Rightarrow>
          (case collectOB data threshold rest of
             None \<Rightarrow> None
           | Some others \<Rightarrow> Some (new @ others)))"

text \<open>One iteration of the lifecycle loop \<^verbatim>\<open>for (let k = startIndex + 1; ...)\<close>.\<close>

definition obStep :: "OrderBlock \<Rightarrow> CandleData \<Rightarrow> OrderBlock" where
  "obStep ob current =
     (if ob_subtype ob = Standard then
        (if ob_direction ob = Bullish \<and> c_close current < ob_priceLow ob
         then ob\<lparr>ob_subtype := Breaker, ob_direction := Bearish\<rparr>
         else if ob_direction ob = Bearish \<and> c_close current > ob_priceHigh ob
         then ob\<lparr>ob_subtype := Breaker, ob_direction := Bullish\<rparr>
         else ob)
      else if ob_subtype ob = Breaker then
        (if ob_direction ob = Bullish \<and> c_close current < ob_priceLow ob
         then ob\<lparr>ob_mitigated := True\<rparr>
         else if ob_direction ob = Bearish \<and> c_close current > ob_priceHigh ob
         then ob\<lparr>ob_mitigated := True\<rparr>
         else ob)
      else ob)"

definition obScan :: "OrderBlock \<Rightarrow> CandleData list \<Rightarrow> OrderBlock" where
  "obScan ob bars = foldl obStep ob bars"

definition obLifecycle :: "CandleData list \<Rightarrow> OrderBlock \<Rightarrow> OrderBlock" where
  "obLifecycle data ob =
     (case findIndex (\<lambda>d. c_time d = ob_time ob) data of
        None \<Rightarrow> ob
      | Some startIndex \<Rightarrow> obScan ob (drop (startIndex + 1) data))"

definition detectOrderBlocks :: "CandleData list \<Rightarrow> real \<Rightarrow> OrderBlock list option" where
  "detectOrderBlocks data thresholdMult =
     (case collectOB data (IMPULSE_THRESHOLD data thresholdMult) [2 ..< length data - 3] of
        None \<Rightarrow> None
      | Some obs \<Rightarrow>
          Some (sliceLast 10 (filter (\<lambda>ob. \<not> ob_mitigated ob) (map (obLifecycle data) obs))))"

section \<open>Signals: \<^verbatim>\<open>detectEntries\<close>\<close>

definition COOLDOWN :: int where
  "COOLDOWN = 10 * 60"

definition touchingBullOB :: "OrderBlock list \<Rightarrow> CandleData \<Rightarrow> OrderBlock option" where
  "touchingBullOB obs candle =
     find (\<lambda>ob. ob_direction ob = Bullish \<and> \<not> ob_mitigated ob
                 \<and> c_low candle \<le> ob_priceHigh ob \<and> c_low candle \<ge> ob_priceLow ob
                 \<and> ob_time ob < c_time candle) obs"

definition touchingBearOB :: "OrderBlock list \<Rightarrow> CandleData \<Rightarrow> OrderBlock option" where
  "touchingBearOB obs candle =
     find (\<lambda>ob. ob_direction ob = Bearish \<and> \<not> ob_mitigated ob
                 \<and> c_high candle \<ge> ob_priceLow ob \<and> c_high candle \<le> ob_priceHigh ob
                 \<and> ob_time ob < c_time candle) obs"

definition touchingBullFVG :: "FVG list \<Rightarrow> CandleData \<Rightarrow> FVG option" where
  "touchingBullFVG fvgs candle =
     find (\<lambda>f. fvg_direction f = Bullish
                \<and> c_low candle \<le> fvg_priceHigh f \<and> c_low candle \<ge> fvg_priceLow f
                \<and> fvg_time f < c_time candle) fvgs"

definition touchingBearFVG :: "FVG list \<Rightarrow> CandleData \<Rightarrow> FVG option" where
  "touchingBearFVG fvgs candle =
     find (\<lambda>f. fvg_direction f = Bearish
                \<and> c_high candle \<ge> fvg_priceLow f \<and> c_high candle \<le> fvg_priceHigh f
                \<and> fvg_time f < c_time candle) fvgs"

definition obLabel :: "OrderBlock \<Rightarrow> string" where
  "obLabel ob = (if ob_subtype ob = Breaker then ''Breaker'' else ''OB'')"

text \<open>
  The running \<^verbatim>\<open>score\<close> and \<^verbatim>\<open>confluences\<close> of one bar, in the order the source
  adds to them: the two zone touches, the two gap touches, then the session bonus.
\<close>

definition confluence :: "CandleData \<Rightarrow> OrderBlock list \<Rightarrow> FVG list \<Rightarrow> int \<times> string list" where
  "confluence candle obs fvgs =
     (let s0 = (0, []);
          s1 = (case touchingBullOB obs candle of
                  None \<Rightarrow> s0
                | Some ob \<Rightarrow> (fst s0 + 3, snd s0 @ [''Retest Bullish '' @ obLabel ob]));
          s2 = (case touchingBearOB obs candle of
                  None \<Rightarrow> s1
                | Some ob \<Rightarrow> (fst s1 + 3, snd s1 @ [''Retest Bearish '' @ obLabel ob]));
          s3 = (case touchingBullFVG fvgs candle of
                  None \<Rightarrow> s2
                | Some f \<Rightarrow>
                    if fvg_isSilverBullet f
                    then (fst s2 + 2 + 4, snd s2 @ [''Discount FVG'', ''Silver Bullet Zone''])
                    else (fst s2 + 2, snd s2 @ [''Discount FVG'']));
          s4 = (case touchingBearFVG fvgs candle of
                  None \<Rightarrow> s3
                | Some f \<Rightarrow>
                    if fvg_isSilverBullet f
                    then (fst s3 + 2 + 4, snd s3 @ [''Premium FVG'', ''Silver Bullet Zone''])
                    else (fst s3 + 2, snd s3 @ [''Premium FVG'']))
      in (fst s4 + sessionBonus (getUTCHours (c_time candle)), snd s4))"

definition isBullish :: "CandleData list \<Rightarrow> nat \<Rightarrow> bool" where
  "isBullish data i =
     (let candle = data ! i;
          prev50 = slice (i - 50) i data;
          avg = foldl (\<lambda>a b. a + c_close b) 0 prev50 / 50
      in c_close candle > avg)"

text \<open>
  The signal pushed at bar \<open>i\<close> (\<open>100 \<le> i < length\<close>) when the last signal was emitted at
  \<open>lastSignalTime\<close>, or \<open>None\<close> when the bar emits nothing.
  \<^verbatim>\<open>touchingBullOB?.priceLow || swingLow\<close> falls back to \<^verbatim>\<open>swingLow\<close> when no zone is
  touched and when the touched zone's bound is \<open>0\<close>.
\<close>

definition entryAt ::
  "CandleData list \<Rightarrow> OrderBlock list \<Rightarrow> FVG list \<Rightarrow> string \<Rightarrow> int \<Rightarrow> nat
     \<Rightarrow> EntrySignal option" where
  "entryAt data obs fvgs timeframe lastSignalTime i =
     (let isScalping = (timeframe \<in> set [''1m'', ''3m'', ''5m'']);
          candle = data ! i;
          score = fst (confluence candle obs fvgs);
          confluences = snd (confluence candle obs fvgs);
          session = getSession (getUTCHours (c_time candle));
          po3 = determinePO3 candle session
      in if score \<ge> 4 \<and> c_time candle - lastSignalTime > COOLDOWN then
           (if isBullish data i
               \<and> (touchingBullOB obs candle \<noteq> None \<or> touchingBullFVG fvgs candle \<noteq> None)
            then
              (let swingLow = Math_min (map c_low (slice (i - 5) (i + 1) data));
                   obLow = (case touchingBullOB obs candle of
                              None \<Rightarrow> swingLow
                            | Some ob \<Rightarrow> if ob_priceLow ob = 0 then swingLow else ob_priceLow ob);
                   sl = min swingLow obLow - (c_close candle * 0.0005);
                   risk = c_close candle - sl;
                   tp = c_close candle + (risk * 2)
               in Some \<lparr>es_time = c_time candle, es_type = LONG, es_price = c_close candle,
                         es_score = score, es_confluences = confluences, es_sl = sl, es_tp = tp,
                         es_winProbability = min 95 (score * 10 + 30),
                         es_tradingStyle = (if isScalping then SCALP else DAY_TRADE),
                         es_po3Phase = po3, es_backtestResult = None, es_backtestPnL = None\<rparr>)
            else if \<not> isBullish data i
               \<and> (touchingBearOB obs candle \<noteq> None \<or> touchingBearFVG fvgs candle \<noteq> None)
            then
              (let swingHigh = Math_max (map c_high (slice (i - 5) (i + 1) data));
                   obHigh = (case touchingBearOB obs candle of
                               None \<Rightarrow> swingHigh
                             | Some ob \<Rightarrow> if ob_priceHigh ob = 0 then swingHigh else ob_priceHigh ob);
                   sl = max swingHigh obHigh + (c_close candle * 0.0005);
                   risk = sl - c_close candle;
                   tp = c_close candle - (risk * 2)
               in Some \<lparr>es_time = c_time candle, es_type = SHORT, es_price = c_close candle,
                         es_score = score, es_confluences = confluences, es_sl = sl, es_tp = tp,
                         es_winProbability = min 95 (score * 10 + 30),
                         es_tradingStyle = (if isScalping then SCALP else DAY_TRADE),
                         es_po3Phase = po3, es_backtestResult = None, es_backtestPnL = None\<rparr>)
            else None)
         else None)"

text \<open>One iteration of the main loop; the state is \<open>(signals, lastSignalTime)\<close>.\<close>

definition entryStep ::
  "CandleData list \<Rightarrow> OrderBlock list \<Rightarrow> FVG list \<Rightarrow> string
     \<Rightarrow> EntrySignal list \<times> int \<Rightarrow> nat \<Rightarrow> EntrySignal list \<times> int" where
  "entryStep data obs fvgs timeframe st i =
     (case entryAt data obs fvgs timeframe (snd st) i of
        None \<Rightarrow> st
      | Some signal \<Rightarrow> (fst st @ [signal], c_time (data ! i)))"

definition detectEntries ::
  "CandleData list \<Rightarrow> OrderBlock list \<Rightarrow> FVG list \<Rightarrow> string \<Rightarrow> EntrySignal list" where
  "detectEntries data obs fvgs timeframe =
     fst (foldl (entryStep data obs fvgs timeframe) ([], 0) [100 ..< length data])"

text \<open>
  The state \<open>(signals, lastSignalTime)\<close> of the main loop when it reaches bar \<open>i\<close>, used
  to state what the loop does at that bar.
\<close>

definition entriesBefore ::
  "CandleData list \<Rightarrow> OrderBlock list \<Rightarrow> FVG list \<Rightarrow> string \<Rightarrow> nat
     \<Rightarrow> EntrySignal list \<times> int" where
  "entriesBefore data obs fvgs timeframe i =
     foldl (entryStep data obs fvgs timeframe) ([], 0) [100 ..< i]"

section \<open>Backtest: \<^verbatim>\<open>performBacktest\<close>\<close>

definition RISK_AMOUNT :: int where
  "RISK_AMOUNT = 1000"

definition REWARD_AMOUNT :: int where
  "REWARD_AMOUNT = 2000"

text \<open>
  The forward scan \<^verbatim>\<open>for (let i = startIndex + 1; i < data.length; i++)\<close> over the
  bars after the signal's bar; it returns \<open>(result, pnl)\<close> and stops at the first bar
  that reaches a boundary.
\<close>

fun scanTrade :: "EntrySignal \<Rightarrow> CandleData list \<Rightarrow> BacktestResult \<times> int" where
  "scanTrade signal [] = (PENDING, 0)"
| "scanTrade signal (candle # rest) =
     (if es_type signal = LONG then
        (if c_low candle \<le> es_sl signal then (LOSS, - RISK_AMOUNT)
         else if c_high candle \<ge> es_tp signal then (WIN, REWARD_AMOUNT)
         else scanTrade signal rest)
      else
        (if c_high candle \<ge> es_sl signal then (LOSS, - RISK_AMOUNT)
         else if c_low candle \<le> es_tp signal then (WIN, REWARD_AMOUNT)
         else scanTrade signal rest))"

text \<open>The variables the callback of \<^verbatim>\<open>signals.map\<close> updates.\<close>

record BTState =
  bt_wins :: nat
  bt_losses :: nat
  bt_netPnL :: int
  bt_maxDrawdown :: int
  bt_peakBalance :: int
  bt_currentBalance :: int
  bt_equityCurve :: "int list"

definition btInit :: BTState where
  "btInit = \<lparr>bt_wins = 0, bt_losses = 0, bt_netPnL = 0, bt_maxDrawdown = 0,
             bt_peakBalance = 0, bt_currentBalance = 100000, bt_equityCurve = [100000]\<rparr>"

text \<open>
  The callback for one signal: the new state and the element of \<^verbatim>\<open>processedSignals\<close>.
  A signal whose timestamp is on no bar is returned as it is and changes nothing.
\<close>

definition btSignal :: "CandleData list \<Rightarrow> BTState \<Rightarrow> EntrySignal \<Rightarrow> BTState \<times> EntrySignal" where
  "btSignal data st signal =
     (case findIndex (\<lambda>d. c_time d = es_time signal) data of
        None \<Rightarrow> (st, signal)
      | Some startIndex \<Rightarrow>
          (let result = fst (scanTrade signal (drop (startIndex + 1) data));
               pnl = snd (scanTrade signal (drop (startIndex + 1) data));
               wins = (if result = WIN then bt_wins st + 1 else bt_wins st);
               losses = (if result = LOSS then bt_losses st + 1 else bt_losses st);
               netPnL = bt_netPnL st + pnl;
               currentBalance = bt_currentBalance st + pnl;
               equityCurve = bt_equityCurve st @ [currentBalance];
               peakBalance = max (bt_peakBalance st) currentBalance;
               dd = peakBalance - currentBalance;
               maxDrawdown = max (bt_maxDrawdown st) dd
           in (\<lparr>bt_wins = wins, bt_losses = losses, bt_netPnL = netPnL,
                 bt_maxDrawdown = maxDrawdown, bt_peakBalance = peakBalance,
                 bt_currentBalance = currentBalance, bt_equityCurve = equityCurve\<rparr>,
               signal\<lparr>es_backtestResult := Some result, es_backtestPnL := Some pnl\<rparr>)))"

fun btRun ::
  "CandleData list \<Rightarrow> BTState \<Rightarrow> EntrySignal list \<Rightarrow> BTState \<times> EntrySignal list" where
  "btRun data st [] = (st, [])"
| "btRun data st (signal # rest) =
     (case btSignal data st signal of
        (st', processed) \<Rightarrow>
          (case btRun data st' rest of (final, others) \<Rightarrow> (final, processed # others)))"

definition performBacktest ::
  "CandleData list \<Rightarrow> EntrySignal list \<Rightarrow> BacktestStats \<times> EntrySignal list" where
  "performBacktest data signals =
     (case btRun data btInit signals of
        (st, processedSignals) \<Rightarrow>
          (let wins = bt_wins st; losses = bt_losses st;
               totalTrades = wins + losses;
               winRate = (if totalTrades > 0 then (real wins / real totalTrades) * 100 else 0);
               profitFactor = (if losses > 0 then (real wins * 2000) / (real losses * 1000)
                               else if wins > 0 then 999 else 0)
           in (\<lparr>bs_totalTrades = totalTrades, bs_wins = wins, bs_losses = losses,
                 bs_winRate = winRate, bs_netPnL = bt_netPnL st,
                 bs_profitFactor = profitFactor, bs_maxDrawdown = bt_maxDrawdown st,
                 bs_equityCurve = bt_equityCurve st\<rparr>,
               processedSignals)))"

text \<open>
  Two notions used to state what the backtest computes. \<open>tradeOutcome\<close> is the pair
  \<open>(result, pnl)\<close> the callback computes for a signal whose bar is found, and \<open>None\<close>
  for a signal it returns untouched. \<open>running b ps\<close> is the list of balances that starts
  at \<open>b\<close> and adds the amounts \<open>ps\<close> one after the other.
\<close>

definition tradeOutcome :: "CandleData list \<Rightarrow> EntrySignal \<Rightarrow> (BacktestResult \<times> int) option" where
  "tradeOutcome data signal =
     (case findIndex (\<lambda>d. c_time d = es_time signal) data of
        None \<Rightarrow> None
      | Some startIndex \<Rightarrow> Some (scanTrade signal (drop (startIndex + 1) data)))"

fun running :: "int \<Rightarrow> int list \<Rightarrow> int list" where
  "running b [] = [b]"
| "running b (p # ps) = b # running (b + p) ps"

section \<open>Daily rollup: \<^verbatim>\<open>dailyStats\<close>\<close>

text \<open>
  \<^verbatim>\<open>toLocaleDateString\<close> and the parsing of its result by \<^verbatim>\<open>new Date(s).getTime()\<close>
  depend on the host's locale and time zone. Both are parameters of the model:
  \<open>localDate\<close> maps a timestamp to its date string and \<open>dateMs\<close> maps a date string to
  the milliseconds the comparator subtracts.

  \<^verbatim>\<open>groups\<close> is an object used as a dictionary; \<^verbatim>\<open>Object.keys\<close> lists its keys in
  insertion order, so it is an association list to which a new key is appended.
\<close>

record 'd DailyStat =
  ds_date :: 'd
  ds_totalGain :: int
  ds_totalLoss :: int
  ds_netPnL :: int
  ds_tradeCount :: nat
  ds_trades :: "EntrySignal list"

definition RISK_PER_TRADE :: int where
  "RISK_PER_TRADE = 1000"

definition validEntries :: "EntrySignal list \<Rightarrow> EntrySignal list" where
  "validEntries entries =
     filter (\<lambda>e. es_backtestResult e = Some WIN \<or> es_backtestResult e = Some LOSS) entries"

fun groupPush :: "('d \<times> EntrySignal list) list \<Rightarrow> 'd \<Rightarrow> EntrySignal
                    \<Rightarrow> ('d \<times> EntrySignal list) list" where
  "groupPush [] date e = [(date, [e])]"
| "groupPush ((k, v) # groups) date e =
     (if k = date then (k, v @ [e]) # groups else (k, v) # groupPush groups date e)"

definition groupByDate :: "(int \<Rightarrow> 'd) \<Rightarrow> EntrySignal list \<Rightarrow> ('d \<times> EntrySignal list) list" where
  "groupByDate localDate entries =
     foldl (\<lambda>groups e. groupPush groups (localDate (es_time e)) e) [] (validEntries entries)"

text \<open>
  \<^verbatim>\<open>Object.keys(groups).sort((a,b) => new Date(b).getTime() - new Date(a).getTime())
  .slice(0, 3)\<close>: a stable sort, latest date first.
\<close>

definition sortedDates :: "('d \<Rightarrow> int) \<Rightarrow> ('d \<times> EntrySignal list) list \<Rightarrow> 'd list" where
  "sortedDates dateMs groups = take 3 (sort_key (\<lambda>d. - dateMs d) (map fst groups))"

text \<open>\<^verbatim>\<open>groups[date].sort((a,b) => b.time - a.time).slice(0, 10)\<close>.\<close>

definition dailyTrades :: "('d \<times> EntrySignal list) list \<Rightarrow> 'd \<Rightarrow> EntrySignal list" where
  "dailyTrades groups date =
     take 10 (sort_key (\<lambda>e. - es_time e)
                (case map_of groups date of None \<Rightarrow> [] | Some v \<Rightarrow> v))"

text \<open>
  One iteration of \<^verbatim>\<open>dailyTrades.forEach\<close> on \<open>(totalGain, totalLoss, netPnL)\<close>.
\<close>

definition tally :: "int \<times> int \<times> int \<Rightarrow> EntrySignal \<Rightarrow> int \<times> int \<times> int" where
  "tally acc t =
     (case acc of (totalGain, totalLoss, netPnL) \<Rightarrow>
        if es_backtestResult t = Some WIN
        then (totalGain + RISK_PER_TRADE * 2, totalLoss, netPnL + RISK_PER_TRADE * 2)
        else (totalGain, totalLoss + RISK_PER_TRADE, netPnL - RISK_PER_TRADE))"

definition dailyStat :: "('d \<times> EntrySignal list) list \<Rightarrow> 'd \<Rightarrow> 'd DailyStat" where
  "dailyStat groups date =
     (let trades = dailyTrades groups date;
          totals = foldl tally (0, 0, 0) trades
      in \<lparr>ds_date = date, ds_totalGain = fst totals, ds_totalLoss = fst (snd totals),
           ds_netPnL = snd (snd totals), ds_tradeCount = length trades,
           ds_trades = trades\<rparr>)"

definition dailyStats :: "(int \<Rightarrow> 'd) \<Rightarrow> ('d \<Rightarrow> int) \<Rightarrow> EntrySignal list \<Rightarrow> 'd DailyStat list" where
  "dailyStats localDate dateMs entries =
     (let groups = groupByDate localDate entries
      in map (dailyStat groups) (sortedDates dateMs groups))"

section \<open>Sample inputs\<close>

text \<open>Shorthands for writing concrete bars and signals in examples.\<close>

definition bar :: "int \<Rightarrow> real \<Rightarrow> real \<Rightarrow> real \<Rightarrow> real \<Rightarrow> CandleData" where
  "bar t opn h l c = \<lparr>c_time = t, c_open = opn, c_high = h, c_low = l, c_close = c\<rparr>"

definition mkSignal :: "int \<Rightarrow> Side \<Rightarrow> real \<Rightarrow> real \<Rightarrow> real \<Rightarrow> EntrySignal" where
  "mkSignal t side price sl tp =
     \<lparr>es_time = t, es_type = side, es_price = price, es_score = 4, es_confluences = [],
      es_sl = sl, es_tp = tp, es_winProbability = 70, es_tradingStyle = SCALP,
      es_po3Phase = PO3_NONE, es_backtestResult = None, es_backtestPnL = None\<rparr>"

definition mkZone :: "int \<Rightarrow> real \<Rightarrow> real \<Rightarrow> Direction \<Rightarrow> OrderBlock" where
  "mkZone t lo hi dir =
     \<lparr>ob_id = (if dir = Bullish then ''ob-bull-'' else ''ob-bear-'', t), ob_time = t,
      ob_priceHigh = hi, ob_priceLow = lo, ob_direction = dir, ob_mitigated = False,
      ob_subtype = Standard\<rparr>"

definition mkGap :: "int \<Rightarrow> real \<Rightarrow> real \<Rightarrow> Direction \<Rightarrow> bool \<Rightarrow> FVG" where
  "mkGap t lo hi dir silver =
     \<lparr>fvg_id = (if dir = Bullish then ''fvg-bull-'' else ''fvg-bear-'', t), fvg_time = t,
      fvg_priceHigh = hi, fvg_priceLow = lo, fvg_direction = dir, fvg_mitigated = False,
      fvg_isSilverBullet = silver\<rparr>"

text \<open>
  A series of 103 five-minute bars: a hundred flat bars at price \<open>1\<close>, then three bars
  that close at \<open>2\<close> with a low of \<open>1\<close>; and one bullish silver-bullet gap with band
  \<open>[0, 10]\<close> anchored at time \<open>0\<close>, which each of the three bars touches.
\<close>

definition cooldownSeries :: "CandleData list" where
  "cooldownSeries =
     map (\<lambda>k. bar (300 * int k) 1 1 1 1) [0 ..< 100]
     @ [bar 30000 1 2 1 2, bar 30300 1 2 1 2, bar 30600 1 2 1 2]"

definition cooldownGaps :: "FVG list" where
  "cooldownGaps = [mkGap 0 0 10 Bullish True]"

text \<open>
  Eleven bars that rise to a single peak at bar 5 and fall again: one pivot high for
  the default swing length \<open>5\<close>, and no pivot low.
\<close>

definition peakSeries :: "CandleData list" where
  "peakSeries =
     [bar 0 10 11 9 10, bar 300 11 12 10 11, bar 600 12 13 11 12, bar 900 13 14 12 13,
      bar 1200 14 15 13 14, bar 1500 15 16 14 15, bar 1800 14 15 13 14, bar 2100 13 14 12 13,
      bar 2400 12 13 11 12, bar 2700 11 12 10 11, bar 3000 10 11 9 10]"

text \<open>
  A host whose local calendar date is the UTC day number, fifteen resolved signals five
  minutes apart on day \<open>0\<close>, and resolved signals on five different days.
\<close>

definition utcDate :: "int \<Rightarrow> int" where
  "utcDate t = t div 86400"

definition utcDateMs :: "int \<Rightarrow> int" where
  "utcDateMs d = d * 86400000"

definition resolved :: "int \<Rightarrow> BacktestResult \<Rightarrow> EntrySignal" where
  "resolved t r =
     (mkSignal t LONG 100 99 102)
       \<lparr>es_backtestResult := Some r, es_backtestPnL := Some (if r = WIN then 2000 else - 1000)\<rparr>"

definition fifteenTrades :: "EntrySignal list" where
  "fifteenTrades = map (\<lambda>k. resolved (300 * int k) (if even k then WIN else LOSS)) [0 ..< 15]"

definition fiveDays :: "EntrySignal list" where
  "fiveDays = [resolved 0 WIN, resolved 86400 LOSS, resolved 172800 WIN, resolved 173100 WIN,
               resolved 259200 LOSS, resolved 345600 WIN, (mkSignal 345900 LONG 100 99 102)
                 \<lparr>es_backtestResult := Some PENDING, es_backtestPnL := Some 0\<rparr>]"

text \<open>
  Six bars in which bar 2 is a bearish candle, bar 3 an impulsive up-close bar above its
  high, bar 4 closes below the zone and bar 5 closes at \<open>lastClose\<close>.
\<close>

definition zoneSeries :: "real \<Rightarrow> CandleData list" where
  "zoneSeries lastClose =
     [bar 0 20 21 19 20, bar 300 20 21 19 20, bar 600 22 24 20 21,
      bar 900 21 29 21 28, bar 1200 28 28 17 18, bar 1500 18 27 18 lastClose]"

definition sampleZone :: OrderBlock where
  "sampleZone = \<lparr>ob_id = (''ob-bull-'', 600), ob_time = 600, ob_priceHigh = 24,
                  ob_priceLow = 20, ob_direction = Bullish, ob_mitigated = False,
                  ob_subtype = Standard\<rparr>"

section \<open>Impulse zones: the lifecycle scan\<close>

lemma breaker_bearish_scan:
  "ob_subtype ob = Breaker \<Longrightarrow> ob_direction ob = Bearish \<Longrightarrow>
   obScan ob bars =
     (if list_ex (\<lambda>c. c_close c > ob_priceHigh ob) bars then ob\<lparr>ob_mitigated := True\<rparr> else ob)"
  unfolding obScan_def
proof (induction bars arbitrary: ob)
  case Nil
  then show ?case by simp
next
  case (Cons c bars)
  have "ob_subtype (obStep ob c) = Breaker" "ob_direction (obStep ob c) = Bearish"
       "ob_priceHigh (obStep ob c) = ob_priceHigh ob"
    using Cons.prems by (simp_all add: obStep_def)
  with Cons.IH[of "obStep ob c"] show ?case
    using Cons.prems by (auto simp: obStep_def)
qed

lemma breaker_bullish_scan:
  "ob_subtype ob = Breaker \<Longrightarrow> ob_direction ob = Bullish \<Longrightarrow>
   obScan ob bars =
     (if list_ex (\<lambda>c. c_close c < ob_priceLow ob) bars then ob\<lparr>ob_mitigated := True\<rparr> else ob)"
  unfolding obScan_def
proof (induction bars arbitrary: ob)
  case Nil
  then show ?case by simp
next
  case (Cons c bars)
  have "ob_subtype (obStep ob c) = Breaker" "ob_direction (obStep ob c) = Bullish"
       "ob_priceLow (obStep ob c) = ob_priceLow ob"
    using Cons.prems by (simp_all add: obStep_def)
  with Cons.IH[of "obStep ob c"] show ?case
    using Cons.prems by (auto simp: obStep_def)
qed

lemma obScan_Cons: "obScan ob (c # bars) = obScan (obStep ob c) bars"
  by (simp add: obScan_def)

lemma standard_bullish_scan:
  "ob_subtype ob = Standard \<Longrightarrow> ob_direction ob = Bullish \<Longrightarrow>
   obScan ob bars =
     (case dropWhile (\<lambda>c. \<not> c_close c < ob_priceLow ob) bars of
        [] \<Rightarrow> ob
      | c # later \<Rightarrow>
          ob\<lparr>ob_subtype := Breaker, ob_direction := Bearish,
             ob_mitigated := (ob_mitigated ob \<or> list_ex (\<lambda>c. c_close c > ob_priceHigh ob) later)\<rparr>)"
proof (induction bars)
  case Nil
  then show ?case by (simp add: obScan_def)
next
  case (Cons c bars)
  show ?case
  proof (cases "c_close c < ob_priceLow ob")
    case True
    then have step: "obStep ob c = ob\<lparr>ob_subtype := Breaker, ob_direction := Bearish\<rparr>"
      using Cons.prems by (simp add: obStep_def)
    show ?thesis
      using True by (simp add: obScan_Cons step breaker_bearish_scan)
  next
    case False
    then have "obStep ob c = ob"
      using Cons.prems by (simp add: obStep_def)
    then show ?thesis
      using False Cons by (simp add: obScan_Cons)
  qed
qed

lemma standard_bearish_scan:
  "ob_subtype ob = Standard \<Longrightarrow> ob_direction ob = Bearish \<Longrightarrow>
   obScan ob bars =
     (case dropWhile (\<lambda>c. \<not> c_close c > ob_priceHigh ob) bars of
        [] \<Rightarrow> ob
      | c # later \<Rightarrow>
          ob\<lparr>ob_subtype := Breaker, ob_direction := Bullish,
             ob_mitigated := (ob_mitigated ob \<or> list_ex (\<lambda>c. c_close c < ob_priceLow ob) later)\<rparr>)"
proof (induction bars)
  case Nil
  then show ?case by (simp add: obScan_def)
next
  case (Cons c bars)
  show ?case
  proof (cases "c_close c > ob_priceHigh ob")
    case True
    then have step: "obStep ob c = ob\<lparr>ob_subtype := Breaker, ob_direction := Bullish\<rparr>"
      using Cons.prems by (simp add: obStep_def)
    show ?thesis
      using True by (simp add: obScan_Cons step breaker_bullish_scan)
  next
    case False
    then have "obStep ob c = ob"
      using Cons.prems by (simp add: obStep_def)
    then show ?thesis
      using False Cons by (simp add: obScan_Cons)
  qed
qed

lemma obStep_mitigated: "ob_mitigated ob \<Longrightarrow> ob_mitigated (obStep ob c)"
  by (simp add: obStep_def)

lemma obScan_mitigated: "ob_mitigated ob \<Longrightarrow> ob_mitigated (obScan ob bars)"
  unfolding obScan_def by (induction bars arbitrary: ob) (simp_all add: obStep_mitigated)

lemma obStep_not_back: "ob_subtype ob \<noteq> Standard \<Longrightarrow> ob_subtype (obStep ob c) = ob_subtype ob"
  by (simp add: obStep_def)

lemma elemAt_Some: "i < length xs \<Longrightarrow> elemAt xs i = Some (xs ! i)"
  by (simp add: elemAt_def)

lemma elemAt_None: "\<not> i < length xs \<Longrightarrow> elemAt xs i = None"
  by (simp add: elemAt_def)

lemma obsAt_in_range:
  "i + 1 < length data \<Longrightarrow> \<exists>new. obsAt data thr i = Some new"
  by (simp add: obsAt_def elemAt_Some Let_def)

lemma obsAt_Some_range: "obsAt data thr i = Some new \<Longrightarrow> i + 1 < length data"
  by (cases "i + 1 < length data") (simp_all add: obsAt_def elemAt_None split: option.splits)

lemma obsAt_eq:
  "i + 1 < length data \<Longrightarrow>
   obsAt data thr i = Some
     ((if c_close (data ! i) < c_open (data ! i)
          \<and> c_close (data ! (i + 1)) - c_open (data ! (i + 1)) > thr
          \<and> c_close (data ! (i + 1)) > c_high (data ! i)
       then [\<lparr>ob_id = (''ob-bull-'', c_time (data ! i)), ob_time = c_time (data ! i),
               ob_priceHigh = c_high (data ! i), ob_priceLow = c_low (data ! i),
               ob_direction = Bullish, ob_mitigated = False, ob_subtype = Standard\<rparr>]
       else [])
      @ (if c_close (data ! i) > c_open (data ! i)
            \<and> c_open (data ! (i + 1)) - c_close (data ! (i + 1)) > thr
            \<and> c_close (data ! (i + 1)) < c_low (data ! i)
         then [\<lparr>ob_id = (''ob-bear-'', c_time (data ! i)), ob_time = c_time (data ! i),
                 ob_priceHigh = c_high (data ! i), ob_priceLow = c_low (data ! i),
                 ob_direction = Bearish, ob_mitigated = False, ob_subtype = Standard\<rparr>]
         else []))"
  by (simp add: obsAt_def elemAt_Some Let_def)

lemma obsAt_member:
  assumes "obsAt data thr i = Some new" "ob \<in> set new"
  shows "i + 1 < length data \<and> ob_subtype ob = Standard \<and> \<not> ob_mitigated ob
   \<and> ob_time ob = c_time (data ! i)
   \<and> ob_priceHigh ob = c_high (data ! i) \<and> ob_priceLow ob = c_low (data ! i)
   \<and> (ob_direction ob = Bullish \<and> c_close (data ! i) < c_open (data ! i)
        \<and> c_close (data ! (i + 1)) - c_open (data ! (i + 1)) > thr
        \<and> c_close (data ! (i + 1)) > c_high (data ! i)
      \<or> ob_direction ob = Bearish \<and> c_close (data ! i) > c_open (data ! i)
        \<and> c_open (data ! (i + 1)) - c_close (data ! (i + 1)) > thr
        \<and> c_close (data ! (i + 1)) < c_low (data ! i))"
proof -
  have r: "i + 1 < length data" using assms(1) by (rule obsAt_Some_range)
  from assms(1) have new: "new = (if c_close (data ! i) < c_open (data ! i)
          \<and> c_close (data ! (i + 1)) - c_open (data ! (i + 1)) > thr
          \<and> c_close (data ! (i + 1)) > c_high (data ! i)
       then [\<lparr>ob_id = (''ob-bull-'', c_time (data ! i)), ob_time = c_time (data ! i),
               ob_priceHigh = c_high (data ! i), ob_priceLow = c_low (data ! i),
               ob_direction = Bullish, ob_mitigated = False, ob_subtype = Standard\<rparr>]
       else [])
      @ (if c_close (data ! i) > c_open (data ! i)
            \<and> c_open (data ! (i + 1)) - c_close (data ! (i + 1)) > thr
            \<and> c_close (data ! (i + 1)) < c_low (data ! i)
         then [\<lparr>ob_id = (''ob-bear-'', c_time (data ! i)), ob_time = c_time (data ! i),
                 ob_priceHigh = c_high (data ! i), ob_priceLow = c_low (data ! i),
                 ob_direction = Bearish, ob_mitigated = False, ob_subtype = Standard\<rparr>]
         else [])"
    unfolding obsAt_eq[OF r] by simp
  consider (bull) "c_close (data ! i) < c_open (data ! i)
          \<and> c_close (data ! (i + 1)) - c_open (data ! (i + 1)) > thr
          \<and> c_close (data ! (i + 1)) > c_high (data ! i)"
      "ob = \<lparr>ob_id = (''ob-bull-'', c_time (data ! i)), ob_time = c_time (data ! i),
               ob_priceHigh = c_high (data ! i), ob_priceLow = c_low (data ! i),
               ob_direction = Bullish, ob_mitigated = False, ob_subtype = Standard\<rparr>"
    | (bear) "c_close (data ! i) > c_open (data ! i)
            \<and> c_open (data ! (i + 1)) - c_close (data ! (i + 1)) > thr
            \<and> c_close (data ! (i + 1)) < c_low (data ! i)"
      "ob = \<lparr>ob_id = (''ob-bear-'', c_time (data ! i)), ob_time = c_time (data ! i),
                 ob_priceHigh = c_high (data ! i), ob_priceLow = c_low (data ! i),
                 ob_direction = Bearish, ob_mitigated = False, ob_subtype = Standard\<rparr>"
    using assms(2) unfolding new by (auto split: if_splits)
  then show ?thesis
  proof cases
    case bull
    then show ?thesis using r by simp
  next
    case bear
    then show ?thesis using r by simp
  qed
qed

lemma collectOB_total:
  "list_all (\<lambda>i. i + 1 < length data) idxs \<Longrightarrow> \<exists>obs. collectOB data thr idxs = Some obs"
proof (induction idxs)
  case Nil
  then show ?case by simp
next
  case (Cons i idxs)
  then obtain new obs where "obsAt data thr i = Some new" "collectOB data thr idxs = Some obs"
    using obsAt_in_range[of i data thr] by auto
  then show ?case by simp
qed

lemma candidate_range: "list_all (\<lambda>i. i + 1 < length data) [2 ..< length data - 3]"
  by (auto simp: list_all_iff)

lemma detectOrderBlocks_total: "\<exists>r. detectOrderBlocks data m = Some r"
proof -
  obtain obs where "collectOB data (IMPULSE_THRESHOLD data m) [2 ..< length data - 3] = Some obs"
    using collectOB_total[OF candidate_range] by blast
  then show ?thesis by (simp add: detectOrderBlocks_def)
qed

lemma collectOB_Cons_Some:
  "collectOB data thr (i # idxs) = Some obs \<Longrightarrow>
   \<exists>new others. obsAt data thr i = Some new \<and> collectOB data thr idxs = Some others
      \<and> obs = new @ others"
  by (cases "obsAt data thr i"; cases "collectOB data thr idxs") simp_all

lemma collectOB_member:
  "collectOB data thr idxs = Some obs \<Longrightarrow> ob \<in> set obs \<Longrightarrow>
   \<exists>i new. i \<in> set idxs \<and> obsAt data thr i = Some new \<and> ob \<in> set new"
proof (induction idxs arbitrary: obs)
  case Nil
  then show ?case by simp
next
  case (Cons i idxs)
  from collectOB_Cons_Some[OF Cons.prems(1)] obtain new others where
    parts: "obsAt data thr i = Some new" "collectOB data thr idxs = Some others"
      "obs = new @ others"
    by blast
  with Cons.prems(2) consider "ob \<in> set new" | "ob \<in> set others" by auto
  then show ?case
  proof cases
    case 1
    with parts show ?thesis by auto
  next
    case 2
    from Cons.IH[OF parts(2) 2] show ?thesis by auto
  qed
qed

lemma findIndex_distinct:
  "distinct (map f xs) \<Longrightarrow> i < length xs \<Longrightarrow> findIndex (\<lambda>d. f d = f (xs ! i)) xs = Some i"
proof (induction xs arbitrary: i)
  case Nil
  then show ?case by simp
next
  case (Cons x xs)
  show ?case
  proof (cases i)
    case 0
    then show ?thesis by simp
  next
    case (Suc k)
    with Cons.prems have "k < length xs" "f x \<noteq> f (xs ! k)" by auto
    with Cons Suc show ?thesis by simp
  qed
qed

lemma sliceLast_subset: "set (sliceLast n xs) \<subseteq> set xs"
  by (simp add: sliceLast_def set_drop_subset)

lemma detectOrderBlocks_Some:
  "detectOrderBlocks data m = Some result \<Longrightarrow>
   \<exists>obs. collectOB data (IMPULSE_THRESHOLD data m) [2 ..< length data - 3] = Some obs
     \<and> result = sliceLast 10 (filter (\<lambda>ob. \<not> ob_mitigated ob) (map (obLifecycle data) obs))"
  unfolding detectOrderBlocks_def
  by (cases "collectOB data (IMPULSE_THRESHOLD data m) [2 ..< length data - 3]") simp_all

lemma detectOrderBlocks_member:
  assumes "detectOrderBlocks data m = Some result" "z \<in> set result"
  shows "\<not> ob_mitigated z
    \<and> (\<exists>i cand. 2 \<le> i \<and> i + 3 < length data \<and> ob_subtype cand = Standard
          \<and> \<not> ob_mitigated cand \<and> ob_time cand = c_time (data ! i)
          \<and> ob_priceHigh cand = c_high (data ! i) \<and> ob_priceLow cand = c_low (data ! i)
          \<and> z = obLifecycle data cand)"
proof -
  from detectOrderBlocks_Some[OF assms(1)] obtain obs where
    obs: "collectOB data (IMPULSE_THRESHOLD data m) [2 ..< length data - 3] = Some obs"
    and res: "result = sliceLast 10 (filter (\<lambda>ob. \<not> ob_mitigated ob) (map (obLifecycle data) obs))"
    by blast
  have "set result \<subseteq> set (filter (\<lambda>ob. \<not> ob_mitigated ob) (map (obLifecycle data) obs))"
    unfolding res by (rule sliceLast_subset)
  with assms(2)
  have "z \<in> set (filter (\<lambda>ob. \<not> ob_mitigated ob) (map (obLifecycle data) obs))" by (rule subsetD[rotated])
  then have "\<not> ob_mitigated z" "z \<in> obLifecycle data ` set obs"
    by simp_all
  then obtain cand where z: "\<not> ob_mitigated z" "cand \<in> set obs" "z = obLifecycle data cand"
    by blast
  from collectOB_member[OF obs z(2)] obtain i new where
    i: "i \<in> set [2 ..< length data - 3]" "obsAt data (IMPULSE_THRESHOLD data m) i = Some new"
       "cand \<in> set new" by blast
  have rng: "2 \<le> i" "i + 3 < length data" using i(1) by auto
  note c = obsAt_member[OF i(2,3)]
  have body: "2 \<le> i \<and> i + 3 < length data \<and> ob_subtype cand = Standard
          \<and> \<not> ob_mitigated cand \<and> ob_time cand = c_time (data ! i)
          \<and> ob_priceHigh cand = c_high (data ! i) \<and> ob_priceLow cand = c_low (data ! i)
          \<and> z = obLifecycle data cand"
    using rng c z(3) by (intro conjI) (elim conjE, assumption)+
  have "\<exists>i cand. 2 \<le> i \<and> i + 3 < length data \<and> ob_subtype cand = Standard
          \<and> \<not> ob_mitigated cand \<and> ob_time cand = c_time (data ! i)
          \<and> ob_priceHigh cand = c_high (data ! i) \<and> ob_priceLow cand = c_low (data ! i)
          \<and> z = obLifecycle data cand"
    by (rule exI[of _ i], rule exI[of _ cand], rule body)
  with z(1) show ?thesis by (rule conjI)
qed

lemma obLifecycle_scan:
  "distinct (map c_time data) \<Longrightarrow> i < length data \<Longrightarrow> ob_time cand = c_time (data ! i) \<Longrightarrow>
   obLifecycle data cand = obScan cand (drop (i + 1) data)"
  using findIndex_distinct[of c_time data i] by (simp add: obLifecycle_def)

text \<open>
  Claim C1. The lifecycle scan of a zone is a two-stage state machine. A Standard
  bullish zone stays as it is until the first bar that closes below its lower bound;
  that bar makes it a Breaker with direction Bearish, and it is mitigated exactly when
  some later bar closes above its upper bound (mirror image for a Standard bearish
  zone). A Breaker is mitigated by the first close against its direction, a mitigated
  zone stays mitigated, every zone the detector returns is unmitigated and is the scan
  of a Standard candidate, and with distinct timestamps the scan runs over the bars
  after the candidate's own bar.
\<close>

theorem impulse_zone_lifecycle:
  "(ob_subtype ob = Standard \<and> ob_direction ob = Bullish \<longrightarrow>
      obScan ob bars =
        (case dropWhile (\<lambda>c. \<not> c_close c < ob_priceLow ob) bars of
           [] \<Rightarrow> ob
         | c # later \<Rightarrow>
             ob\<lparr>ob_subtype := Breaker, ob_direction := Bearish,
                ob_mitigated :=
                  (ob_mitigated ob \<or> list_ex (\<lambda>c. c_close c > ob_priceHigh ob) later)\<rparr>))
   \<and> (ob_subtype ob = Standard \<and> ob_direction ob = Bearish \<longrightarrow>
      obScan ob bars =
        (case dropWhile (\<lambda>c. \<not> c_close c > ob_priceHigh ob) bars of
           [] \<Rightarrow> ob
         | c # later \<Rightarrow>
             ob\<lparr>ob_subtype := Breaker, ob_direction := Bullish,
                ob_mitigated :=
                  (ob_mitigated ob \<or> list_ex (\<lambda>c. c_close c < ob_priceLow ob) later)\<rparr>))
   \<and> (ob_subtype ob = Breaker \<and> ob_direction ob = Bearish \<longrightarrow>
      obScan ob bars =
        (if list_ex (\<lambda>c. c_close c > ob_priceHigh ob) bars
         then ob\<lparr>ob_mitigated := True\<rparr> else ob))
   \<and> (ob_subtype ob = Breaker \<and> ob_direction ob = Bullish \<longrightarrow>
      obScan ob bars =
        (if list_ex (\<lambda>c. c_close c < ob_priceLow ob) bars
         then ob\<lparr>ob_mitigated := True\<rparr> else ob))
   \<and> (ob_mitigated ob \<longrightarrow> ob_mitigated (obScan ob bars))
   \<and> (detectOrderBlocks data m = Some result \<and> z \<in> set result \<longrightarrow>
        \<not> ob_mitigated z
        \<and> (\<exists>i cand. 2 \<le> i \<and> i + 3 < length data \<and> ob_subtype cand = Standard
              \<and> \<not> ob_mitigated cand \<and> ob_time cand = c_time (data ! i)
              \<and> ob_priceHigh cand = c_high (data ! i) \<and> ob_priceLow cand = c_low (data ! i)
              \<and> z = obLifecycle data cand))
   \<and> (distinct (map c_time data) \<and> k < length data \<and> ob_time ob = c_time (data ! k) \<longrightarrow>
        obLifecycle data ob = obScan ob (drop (k + 1) data))"
proof (intro conjI impI)
  assume "ob_subtype ob = Standard \<and> ob_direction ob = Bullish"
  then show "obScan ob bars =
        (case dropWhile (\<lambda>c. \<not> c_close c < ob_priceLow ob) bars of
           [] \<Rightarrow> ob
         | c # later \<Rightarrow>
             ob\<lparr>ob_subtype := Breaker, ob_direction := Bearish,
                ob_mitigated :=
                  (ob_mitigated ob \<or> list_ex (\<lambda>c. c_close c > ob_priceHigh ob) later)\<rparr>)"
    using standard_bullish_scan[of ob bars] by blast
next
  assume "ob_subtype ob = Standard \<and> ob_direction ob = Bearish"
  then show "obScan ob bars =
        (case dropWhile (\<lambda>c. \<not> c_close c > ob_priceHigh ob) bars of
           [] \<Rightarrow> ob
         | c # later \<Rightarrow>
             ob\<lparr>ob_subtype := Breaker, ob_direction := Bullish,
                ob_mitigated :=
                  (ob_mitigated ob \<or> list_ex (\<lambda>c. c_close c < ob_priceLow ob) later)\<rparr>)"
    using standard_bearish_scan[of ob bars] by blast
next
  assume "ob_subtype ob = Breaker \<and> ob_direction ob = Bearish"
  then show "obScan ob bars =
        (if list_ex (\<lambda>c. c_close c > ob_priceHigh ob) bars
         then ob\<lparr>ob_mitigated := True\<rparr> else ob)"
    using breaker_bearish_scan[of ob bars] by blast
next
  assume "ob_subtype ob = Breaker \<and> ob_direction ob = Bullish"
  then show "obScan ob bars =
        (if list_ex (\<lambda>c. c_close c < ob_priceLow ob) bars
         then ob\<lparr>ob_mitigated := True\<rparr> else ob)"
    using breaker_bullish_scan[of ob bars] by blast
next
  assume "ob_mitigated ob"
  then show "ob_mitigated (obScan ob bars)" by (rule obScan_mitigated)
next
  assume a: "detectOrderBlocks data m = Some result \<and> z \<in> set result"
  then show "\<not> ob_mitigated z" using detectOrderBlocks_member[of data m result z] by blast
  from a show "\<exists>i cand. 2 \<le> i \<and> i + 3 < length data \<and> ob_subtype cand = Standard
              \<and> \<not> ob_mitigated cand \<and> ob_time cand = c_time (data ! i)
              \<and> ob_priceHigh cand = c_high (data ! i) \<and> ob_priceLow cand = c_low (data ! i)
              \<and> z = obLifecycle data cand"
    using detectOrderBlocks_member[of data m result z] by blast
next
  assume "distinct (map c_time data) \<and> k < length data \<and> ob_time ob = c_time (data ! k)"
  then show "obLifecycle data ob = obScan ob (drop (k + 1) data)"
    using obLifecycle_scan[of data k ob] by blast
qed


lemma zoneSeries_detect_breaker:
  "detectOrderBlocks (zoneSeries 22) (12 / 10) =
     Some [sampleZone\<lparr>ob_subtype := Breaker, ob_direction := Bearish\<rparr>]"
  by (simp add: detectOrderBlocks_def IMPULSE_THRESHOLD_def meanBody_def sliceLast_def
      zoneSeries_def sampleZone_def bar_def obsAt_def elemAt_def obLifecycle_def obScan_def
      obStep_def upt_rec)

lemma zoneSeries_detect_mitigated:
  "detectOrderBlocks (zoneSeries 26) (12 / 10) = Some []"
  by (simp add: detectOrderBlocks_def IMPULSE_THRESHOLD_def meanBody_def sliceLast_def
      zoneSeries_def sampleZone_def bar_def obsAt_def elemAt_def obLifecycle_def obScan_def
      obStep_def upt_rec)

theorem impulse_zone_lifecycle_witness:
  "obScan sampleZone (drop 3 (zoneSeries 26)) =
     sampleZone\<lparr>ob_subtype := Breaker, ob_direction := Bearish, ob_mitigated := True\<rparr>
   \<and> obScan sampleZone (drop 3 (zoneSeries 22)) =
     sampleZone\<lparr>ob_subtype := Breaker, ob_direction := Bearish\<rparr>
   \<and> obLifecycle (zoneSeries 26) sampleZone = obScan sampleZone (drop 3 (zoneSeries 26))
   \<and> detectOrderBlocks (zoneSeries 26) (12 / 10) = Some []
   \<and> detectOrderBlocks (zoneSeries 22) (12 / 10) =
       Some [sampleZone\<lparr>ob_subtype := Breaker, ob_direction := Bearish\<rparr>]
   \<and> \<not> ob_mitigated (sampleZone\<lparr>ob_subtype := Breaker, ob_direction := Bearish\<rparr>)"
proof -
  have std: "ob_subtype sampleZone = Standard \<and> ob_direction sampleZone = Bullish"
    by (simp add: sampleZone_def)
  have anchored: "distinct (map c_time (zoneSeries 26)) \<and> 2 < length (zoneSeries 26)
      \<and> ob_time sampleZone = c_time (zoneSeries 26 ! 2)"
    by (simp add: zoneSeries_def sampleZone_def bar_def)
  have found: "detectOrderBlocks (zoneSeries 22) (12 / 10) =
        Some [sampleZone\<lparr>ob_subtype := Breaker, ob_direction := Bearish\<rparr>]
      \<and> sampleZone\<lparr>ob_subtype := Breaker, ob_direction := Bearish\<rparr>
          \<in> set [sampleZone\<lparr>ob_subtype := Breaker, ob_direction := Bearish\<rparr>]"
    using zoneSeries_detect_breaker by simp
  note mitigated_run =
    impulse_zone_lifecycle[of sampleZone "drop 3 (zoneSeries 26)" "zoneSeries 26" "12 / 10"
      "[]" sampleZone 2]
  note breaker_run =
    impulse_zone_lifecycle[of sampleZone "drop 3 (zoneSeries 22)" "zoneSeries 22" "12 / 10"
      "[sampleZone\<lparr>ob_subtype := Breaker, ob_direction := Bearish\<rparr>]"
      "sampleZone\<lparr>ob_subtype := Breaker, ob_direction := Bearish\<rparr>" 2]
  note m1 = mitigated_run[THEN conjunct1, rule_format, OF std]
  note b1 = breaker_run[THEN conjunct1, rule_format, OF std]
  note m7 = mitigated_run[THEN conjunct2, THEN conjunct2, THEN conjunct2, THEN conjunct2,
      THEN conjunct2, THEN conjunct2, rule_format, OF anchored]
  note b6 = breaker_run[THEN conjunct2, THEN conjunct2, THEN conjunct2, THEN conjunct2,
      THEN conjunct2, THEN conjunct1, rule_format, OF found, THEN conjunct1]
  have w1: "obScan sampleZone (drop 3 (zoneSeries 26)) =
     sampleZone\<lparr>ob_subtype := Breaker, ob_direction := Bearish, ob_mitigated := True\<rparr>"
    unfolding m1 by (simp add: zoneSeries_def sampleZone_def bar_def)
  have w2: "obScan sampleZone (drop 3 (zoneSeries 22)) =
     sampleZone\<lparr>ob_subtype := Breaker, ob_direction := Bearish\<rparr>"
    unfolding b1 by (simp add: zoneSeries_def sampleZone_def bar_def)
  have w3: "obLifecycle (zoneSeries 26) sampleZone = obScan sampleZone (drop 3 (zoneSeries 26))"
    using m7 by simp
  from w1 w2 w3 zoneSeries_detect_mitigated zoneSeries_detect_breaker b6
  show ?thesis by (intro conjI)
qed

section \<open>Impulse threshold\<close>

lemma foldl_plus_sum_list: "foldl (+) a xs = a + sum_list (xs :: real list)"
  by (induction xs arbitrary: a) simp_all

lemma length_sliceLast: "length (sliceLast n xs) = min n (length xs)"
  unfolding sliceLast_def by (simp add: min_def)

lemma meanBody_eq:
  "meanBody data =
     (if data = [] \<or> (\<Sum>d\<leftarrow>sliceLast 100 data. \<bar>c_close d - c_open d\<bar>) = 0 then 1
      else (\<Sum>d\<leftarrow>sliceLast 100 data. \<bar>c_close d - c_open d\<bar>)
             / real (length (sliceLast 100 data)))"
proof (cases "data = []")
  case True
  then show ?thesis by (simp add: meanBody_def sliceLast_def)
next
  case False
  then have "length (sliceLast 100 data) \<noteq> 0" by (simp add: length_sliceLast)
  then show ?thesis using False
    by (simp add: meanBody_def Let_def foldl_plus_sum_list)
qed

lemma body_sum_nonneg: "0 \<le> (\<Sum>d\<leftarrow>bars. \<bar>c_close d - c_open d\<bar>)"
  by (induction bars) simp_all

lemma meanBody_pos: "meanBody data > 0"
proof (cases "data = [] \<or> (\<Sum>d\<leftarrow>sliceLast 100 data. \<bar>c_close d - c_open d\<bar>) = 0")
  case True
  then show ?thesis by (simp add: meanBody_eq)
next
  case False
  have "0 \<le> (\<Sum>d\<leftarrow>sliceLast 100 data. \<bar>c_close d - c_open d\<bar>)"
    by (rule body_sum_nonneg)
  with False have pos: "0 < (\<Sum>d\<leftarrow>sliceLast 100 data. \<bar>c_close d - c_open d\<bar>)"
    by linarith
  from False have "0 < length (sliceLast 100 data)"
    by (simp add: length_sliceLast)
  with pos have "0 < (\<Sum>d\<leftarrow>sliceLast 100 data. \<bar>c_close d - c_open d\<bar>)
                      / real (length (sliceLast 100 data))"
    by simp
  with False show ?thesis by (simp add: meanBody_eq)
qed

lemma flat_body_sum:
  "list_all (\<lambda>d. c_close d = c_open d) bars \<Longrightarrow> (\<Sum>d\<leftarrow>bars. \<bar>c_close d - c_open d\<bar>) = 0"
  by (induction bars) simp_all

lemma flat_sliceLast:
  "list_all P xs \<Longrightarrow> list_all P (sliceLast n xs)"
  unfolding sliceLast_def list_all_iff using set_drop_subset[of "length xs - n" xs] by blast

lemma meanBody_flat:
  "list_all (\<lambda>d. c_close d = c_open d) data \<Longrightarrow> meanBody data = 1"
proof -
  assume "list_all (\<lambda>d. c_close d = c_open d) data"
  then have "list_all (\<lambda>d. c_close d = c_open d) (sliceLast 100 data)"
    by (rule flat_sliceLast)
  then have "(\<Sum>d\<leftarrow>sliceLast 100 data. \<bar>c_close d - c_open d\<bar>) = 0"
    by (rule flat_body_sum)
  then show ?thesis by (simp add: meanBody_eq)
qed

lemma detectOrderBlocks_empty: "detectOrderBlocks [] m = Some []"
  by (simp add: detectOrderBlocks_def sliceLast_def)

text \<open>
  Claim C7, as amended. The detector returns a result for every series (no read
  beyond the array, no division error), the empty series gives no zones, and the mean
  body size is the mean of \<open>|close - open|\<close> over the last 100 bars with the value \<open>1\<close>
  substituted when that mean is zero or undefined. So the mean body size is always
  positive, and for a series of bars with \<open>close = open\<close> it is \<open>1\<close> and the threshold
  equals the multiplier.
\<close>

theorem impulse_threshold_fallback:
  "(\<exists>r. detectOrderBlocks data m = Some r)
   \<and> detectOrderBlocks [] m = Some []
   \<and> meanBody data =
       (if data = [] \<or> (\<Sum>d\<leftarrow>sliceLast 100 data. \<bar>c_close d - c_open d\<bar>) = 0 then 1
        else (\<Sum>d\<leftarrow>sliceLast 100 data. \<bar>c_close d - c_open d\<bar>)
               / real (length (sliceLast 100 data)))
   \<and> meanBody data > 0
   \<and> (list_all (\<lambda>d. c_close d = c_open d) data \<longrightarrow>
        meanBody data = 1 \<and> IMPULSE_THRESHOLD data m = m)"
proof (intro conjI impI)
  show "\<exists>r. detectOrderBlocks data m = Some r" by (rule detectOrderBlocks_total)
  show "detectOrderBlocks [] m = Some []" by (rule detectOrderBlocks_empty)
  show "meanBody data =
       (if data = [] \<or> (\<Sum>d\<leftarrow>sliceLast 100 data. \<bar>c_close d - c_open d\<bar>) = 0 then 1
        else (\<Sum>d\<leftarrow>sliceLast 100 data. \<bar>c_close d - c_open d\<bar>)
               / real (length (sliceLast 100 data)))"
    by (rule meanBody_eq)
  show "meanBody data > 0" by (rule meanBody_pos)
next
  assume flat: "list_all (\<lambda>d. c_close d = c_open d) data"
  then show "meanBody data = 1" by (rule meanBody_flat)
  then show "IMPULSE_THRESHOLD data m = m" by (simp add: IMPULSE_THRESHOLD_def)
qed

theorem impulse_threshold_fallback_witness:
  "detectOrderBlocks [] (12 / 10) = Some []
   \<and> meanBody [bar 0 5 5 5 5, bar 300 5 6 4 5] = 1
   \<and> IMPULSE_THRESHOLD [bar 0 5 5 5 5, bar 300 5 6 4 5] (12 / 10) = 12 / 10
   \<and> meanBody [bar 0 5 7 5 7, bar 300 7 8 6 8] = 3 / 2"
proof -
  have flat: "list_all (\<lambda>d. c_close d = c_open d) [bar 0 5 5 5 5, bar 300 5 6 4 5]"
    by (simp add: bar_def)
  from impulse_threshold_fallback[of "[bar 0 5 5 5 5, bar 300 5 6 4 5]" "12 / 10"] flat
  have "meanBody [bar 0 5 5 5 5, bar 300 5 6 4 5] = 1"
    "IMPULSE_THRESHOLD [bar 0 5 5 5 5, bar 300 5 6 4 5] (12 / 10) = 12 / 10"
    by simp_all
  moreover from impulse_threshold_fallback[of "[bar 0 5 7 5 7, bar 300 7 8 6 8]" "12 / 10"]
  have "meanBody [bar 0 5 7 5 7, bar 300 7 8 6 8] = 3 / 2"
    by (simp add: sliceLast_def bar_def)
  moreover from impulse_threshold_fallback[of "[]" "12 / 10"]
  have "detectOrderBlocks [] (12 / 10) = Some []" by simp
  ultimately show ?thesis by (intro conjI)
qed

text \<open>
  Claim C7 as stated says that a non-empty series of bars with \<open>close = open\<close> has mean
  body size and threshold \<open>0\<close>; on two such bars both are non-zero.
\<close>

theorem flat_series_mean_counterexample:
  "list_all (\<lambda>d. c_close d = c_open d) [bar 0 5 5 5 5, bar 300 5 6 4 5]
   \<and> meanBody [bar 0 5 5 5 5, bar 300 5 6 4 5] \<noteq> 0
   \<and> IMPULSE_THRESHOLD [bar 0 5 5 5 5, bar 300 5 6 4 5] (12 / 10) \<noteq> 0"
  by (simp add: meanBody_def IMPULSE_THRESHOLD_def sliceLast_def bar_def)

section \<open>Backtest scan\<close>

lemma scanTrade_long:
  "es_type s = LONG \<Longrightarrow>
   scanTrade s bars =
     (case find (\<lambda>c. c_low c \<le> es_sl s \<or> c_high c \<ge> es_tp s) bars of
        None \<Rightarrow> (PENDING, 0)
      | Some c \<Rightarrow> if c_low c \<le> es_sl s then (LOSS, - 1000) else (WIN, 2000))"
  by (induction bars) (simp_all add: RISK_AMOUNT_def REWARD_AMOUNT_def)

lemma scanTrade_short:
  "es_type s = SHORT \<Longrightarrow>
   scanTrade s bars =
     (case find (\<lambda>c. c_high c \<ge> es_sl s \<or> c_low c \<le> es_tp s) bars of
        None \<Rightarrow> (PENDING, 0)
      | Some c \<Rightarrow> if c_high c \<ge> es_sl s then (LOSS, - 1000) else (WIN, 2000))"
  by (induction bars) (simp_all add: RISK_AMOUNT_def REWARD_AMOUNT_def)

lemma btSignal_located:
  "findIndex (\<lambda>d. c_time d = es_time s) data = Some k \<Longrightarrow>
   snd (btSignal data st s) =
     s\<lparr>es_backtestResult := Some (fst (scanTrade s (drop (k + 1) data))),
       es_backtestPnL := Some (snd (scanTrade s (drop (k + 1) data)))\<rparr>"
  by (simp add: btSignal_def Let_def)

text \<open>
  Claim C8. The forward scan of a Long signal resolves at the first bar whose low
  reaches the stop or whose high reaches the target; the result is Loss with
  \<open>-1000\<close> when that bar's low reaches the stop (also when its high reaches the target
  too) and Win with \<open>+2000\<close> otherwise; with no such bar the trade stays Pending with
  \<open>0\<close>. Short is the mirror image, the stop being tested on the bar's high. The
  backtest runs this scan over the bars after the signal's own bar.
\<close>

theorem stop_loss_priority:
  "(es_type s = LONG \<longrightarrow>
      scanTrade s bars =
        (case find (\<lambda>c. c_low c \<le> es_sl s \<or> c_high c \<ge> es_tp s) bars of
           None \<Rightarrow> (PENDING, 0)
         | Some c \<Rightarrow> if c_low c \<le> es_sl s then (LOSS, - 1000) else (WIN, 2000)))
   \<and> (es_type s = SHORT \<longrightarrow>
      scanTrade s bars =
        (case find (\<lambda>c. c_high c \<ge> es_sl s \<or> c_low c \<le> es_tp s) bars of
           None \<Rightarrow> (PENDING, 0)
         | Some c \<Rightarrow> if c_high c \<ge> es_sl s then (LOSS, - 1000) else (WIN, 2000)))
   \<and> (findIndex (\<lambda>d. c_time d = es_time s) data = Some k \<longrightarrow>
      snd (btSignal data st s) =
        s\<lparr>es_backtestResult := Some (fst (scanTrade s (drop (k + 1) data))),
          es_backtestPnL := Some (snd (scanTrade s (drop (k + 1) data)))\<rparr>)"
  using scanTrade_long[of s bars] scanTrade_short[of s bars] btSignal_located[of s data k st]
  by (intro conjI impI) assumption+

theorem stop_loss_priority_witness:
  "scanTrade (mkSignal 0 LONG 100 99 102) [bar 300 100 103 98 101] = (LOSS, - 1000)
   \<and> scanTrade (mkSignal 0 LONG 100 99 102) [bar 300 100 101 100 101, bar 600 101 103 100 102]
       = (WIN, 2000)
   \<and> scanTrade (mkSignal 0 SHORT 100 101 98) [bar 300 100 102 97 99] = (LOSS, - 1000)
   \<and> scanTrade (mkSignal 0 SHORT 100 101 98) [bar 300 100 100 97 99] = (WIN, 2000)
   \<and> es_backtestResult
        (snd (btSignal [bar 0 100 100 100 100, bar 300 100 103 98 101] btInit
                (mkSignal 0 LONG 100 99 102))) = Some LOSS"
proof -
  have long: "es_type (mkSignal 0 LONG 100 99 102) = LONG"
    and short: "es_type (mkSignal 0 SHORT 100 101 98) = SHORT"
    and idx: "findIndex (\<lambda>d. c_time d = es_time (mkSignal 0 LONG 100 99 102))
                [bar 0 100 100 100 100, bar 300 100 103 98 101] = Some 0"
    by (simp_all add: mkSignal_def bar_def)
  note a = stop_loss_priority[of "mkSignal 0 LONG 100 99 102" "[bar 300 100 103 98 101]"
      "[bar 0 100 100 100 100, bar 300 100 103 98 101]" 0 btInit]
  note b = stop_loss_priority[of "mkSignal 0 LONG 100 99 102"
      "[bar 300 100 101 100 101, bar 600 101 103 100 102]"]
  note c = stop_loss_priority[of "mkSignal 0 SHORT 100 101 98" "[bar 300 100 102 97 99]"]
  note d = stop_loss_priority[of "mkSignal 0 SHORT 100 101 98" "[bar 300 100 100 97 99]"]
  from a long idx have
    a1: "scanTrade (mkSignal 0 LONG 100 99 102) [bar 300 100 103 98 101] = (LOSS, - 1000)"
    and a2: "es_backtestResult
        (snd (btSignal [bar 0 100 100 100 100, bar 300 100 103 98 101] btInit
                (mkSignal 0 LONG 100 99 102))) = Some LOSS"
    by (simp_all add: mkSignal_def bar_def)
  from b long have b1: "scanTrade (mkSignal 0 LONG 100 99 102)
      [bar 300 100 101 100 101, bar 600 101 103 100 102] = (WIN, 2000)"
    by (simp add: mkSignal_def bar_def)
  from c short have c1: "scanTrade (mkSignal 0 SHORT 100 101 98) [bar 300 100 102 97 99]
      = (LOSS, - 1000)"
    by (simp add: mkSignal_def bar_def)
  from d short have d1: "scanTrade (mkSignal 0 SHORT 100 101 98) [bar 300 100 100 97 99]
      = (WIN, 2000)"
    by (simp add: mkSignal_def bar_def)
  from a1 b1 c1 d1 a2 show ?thesis by (intro conjI)
qed

section \<open>Sessions\<close>

text \<open>
  Claim C10. Hour 7 is classified Asia, so its phase is Accumulation; hours 12 to 15 are
  classified London; the session bonus is \<open>1\<close> for an hour in \<open>[0, 21)\<close> and \<open>0\<close> otherwise,
  never \<open>2\<close>, and it is all a bar scores when it touches no zone and no gap.
\<close>

theorem session_single_valued:
  "getSession 7 = ASIA
   \<and> determinePO3 candle (getSession 7) = ACCUMULATION
   \<and> (12 \<le> h \<and> h < 16 \<longrightarrow> getSession h = LONDON)
   \<and> sessionBonus h = (if 0 \<le> h \<and> h < 21 then 1 else 0)
   \<and> sessionBonus h \<noteq> 2
   \<and> fst (confluence candle [] []) = (if getUTCHours (c_time candle) < 21 then 1 else 0)"
proof -
  have "0 \<le> getUTCHours (c_time candle)" by (simp add: getUTCHours_def)
  then have "fst (confluence candle [] [])
      = (if getUTCHours (c_time candle) < 21 then 1 else 0)"
    by (simp add: confluence_def Let_def touchingBullOB_def touchingBearOB_def
        touchingBullFVG_def touchingBearFVG_def sessionBonus_def getSession_def)
  then show ?thesis
    by (auto simp: getSession_def determinePO3_def sessionBonus_def)
qed

theorem session_single_valued_witness:
  "getSession 7 = ASIA \<and> determinePO3 (bar 25200 1 2 1 2) (getSession 7) = ACCUMULATION
   \<and> getSession 13 = LONDON \<and> sessionBonus 13 = 1 \<and> sessionBonus 22 = 0
   \<and> fst (confluence (bar 25200 1 2 1 2) [] []) = 1"
  using session_single_valued [of "bar 25200 1 2 1 2" 13]
    session_single_valued [of "bar 25200 1 2 1 2" 22]
  by (simp add: bar_def getUTCHours_def)

section \<open>Backtest statistics\<close>

lemma scanTrade_pnl:
  "snd (scanTrade s bars) =
     (case fst (scanTrade s bars) of WIN \<Rightarrow> 2000 | LOSS \<Rightarrow> - 1000 | PENDING \<Rightarrow> 0)"
  by (induction bars) (simp_all add: RISK_AMOUNT_def REWARD_AMOUNT_def)

lemma btSignal_unlocated:
  "tradeOutcome data signal = None \<Longrightarrow> btSignal data st signal = (st, signal)"
  by (cases "findIndex (\<lambda>d. c_time d = es_time signal) data")
    (simp_all add: tradeOutcome_def btSignal_def)

lemma btSignal_outcome:
  assumes "tradeOutcome data signal = Some (result, pnl)"
  shows "bt_equityCurve (fst (btSignal data st signal))
           = bt_equityCurve st @ [bt_currentBalance st + pnl]"
    and "bt_currentBalance (fst (btSignal data st signal)) = bt_currentBalance st + pnl"
    and "bt_netPnL (fst (btSignal data st signal)) = bt_netPnL st + pnl"
    and "bt_wins (fst (btSignal data st signal))
           = bt_wins st + (if result = WIN then 1 else 0)"
    and "bt_losses (fst (btSignal data st signal))
           = bt_losses st + (if result = LOSS then 1 else 0)"
    and "snd (btSignal data st signal)
           = signal\<lparr>es_backtestResult := Some result, es_backtestPnL := Some pnl\<rparr>"
proof -
  from assms obtain k where k: "findIndex (\<lambda>d. c_time d = es_time signal) data = Some k"
    and sc: "scanTrade signal (drop (Suc k) data) = (result, pnl)"
    by (cases "findIndex (\<lambda>d. c_time d = es_time signal) data")
      (simp_all add: tradeOutcome_def)
  show "bt_equityCurve (fst (btSignal data st signal))
           = bt_equityCurve st @ [bt_currentBalance st + pnl]"
    by (simp add: btSignal_def k sc Let_def)
  show "bt_currentBalance (fst (btSignal data st signal)) = bt_currentBalance st + pnl"
    by (simp add: btSignal_def k sc Let_def)
  show "bt_netPnL (fst (btSignal data st signal)) = bt_netPnL st + pnl"
    by (simp add: btSignal_def k sc Let_def)
  show "bt_wins (fst (btSignal data st signal))
           = bt_wins st + (if result = WIN then 1 else 0)"
    by (simp add: btSignal_def k sc Let_def)
  show "bt_losses (fst (btSignal data st signal))
           = bt_losses st + (if result = LOSS then 1 else 0)"
    by (simp add: btSignal_def k sc Let_def)
  show "snd (btSignal data st signal)
           = signal\<lparr>es_backtestResult := Some result, es_backtestPnL := Some pnl\<rparr>"
    by (simp add: btSignal_def k sc Let_def)
qed

lemma btRun_Cons:
  "btRun data st (signal # rest) =
     (fst (btRun data (fst (btSignal data st signal)) rest),
      snd (btSignal data st signal) # snd (btRun data (fst (btSignal data st signal)) rest))"
  by (simp add: case_prod_unfold)

lemma running_hd: "running b ps = b # tl (running b ps)"
  by (cases ps) simp_all

lemma running_tl: "b # tl (running b ps) = running b ps"
  by (cases ps) simp_all

lemma length_running: "length (running b ps) = 1 + length ps"
  by (induction ps arbitrary: b) simp_all

lemma running_nonempty: "running b ps \<noteq> []"
  by (cases ps) simp_all

lemma last_running: "last (running b ps) = b + sum_list ps"
  by (induction ps arbitrary: b) (simp_all add: running_nonempty)


lemma btRun_state:
  "bt_equityCurve (fst (btRun data st signals))
     = bt_equityCurve st
       @ tl (running (bt_currentBalance st) (map snd (List.map_filter (tradeOutcome data) signals)))
   \<and> bt_currentBalance (fst (btRun data st signals))
     = bt_currentBalance st + sum_list (map snd (List.map_filter (tradeOutcome data) signals))
   \<and> bt_netPnL (fst (btRun data st signals))
     = bt_netPnL st + sum_list (map snd (List.map_filter (tradeOutcome data) signals))
   \<and> bt_wins (fst (btRun data st signals))
     = bt_wins st + length (filter (\<lambda>r. fst r = WIN) (List.map_filter (tradeOutcome data) signals))
   \<and> bt_losses (fst (btRun data st signals))
     = bt_losses st
       + length (filter (\<lambda>r. fst r = LOSS) (List.map_filter (tradeOutcome data) signals))"
proof (induction signals arbitrary: st)
  case Nil
  then show ?case by (simp add: map_filter_simps)
next
  case (Cons sg rest)
  show ?case
  proof (cases "tradeOutcome data sg")
    case None
    then show ?thesis
      using Cons.IH[of st]
      by (simp only: btRun_Cons btSignal_unlocated[OF None] map_filter_simps fst_conv snd_conv
          option.case)
  next
    case (Some out)
    obtain result pnl where o: "out = (result, pnl)" by (cases out)
    note out = btSignal_outcome[OF Some[unfolded o], of st]
    show ?thesis
      using Cons.IH[of "fst (btSignal data st sg)"]
      by (simp add: btRun_Cons map_filter_simps Some o out running_tl del: btRun.simps)
  qed
qed

lemma outcome_pnl:
  "tradeOutcome data sg = Some out \<Longrightarrow>
   snd out = (case fst out of WIN \<Rightarrow> 2000 | LOSS \<Rightarrow> - 1000 | PENDING \<Rightarrow> 0)"
  using scanTrade_pnl
  by (cases "findIndex (\<lambda>d. c_time d = es_time sg) data") (auto simp: tradeOutcome_def)

lemma outcomes_sum:
  "sum_list (map snd (List.map_filter (tradeOutcome data) signals))
     = 2000 * int (length (filter (\<lambda>r. fst r = WIN) (List.map_filter (tradeOutcome data) signals)))
       - 1000 * int (length (filter (\<lambda>r. fst r = LOSS)
                               (List.map_filter (tradeOutcome data) signals)))"
proof (induction signals)
  case Nil
  then show ?case by (simp add: map_filter_simps)
next
  case (Cons sg rest)
  show ?case
  proof (cases "tradeOutcome data sg")
    case None
    then show ?thesis using Cons by (simp add: map_filter_simps)
  next
    case (Some out)
    from outcome_pnl[OF Some] show ?thesis
      using Cons Some by (cases "fst out") (simp_all add: map_filter_simps)
  qed
qed

lemma outcomes_pending:
  "map snd (filter (\<lambda>r. fst r = PENDING) (List.map_filter (tradeOutcome data) signals))
     = replicate (length (filter (\<lambda>r. fst r = PENDING)
                            (List.map_filter (tradeOutcome data) signals))) 0"
proof (induction signals)
  case Nil
  then show ?case by (simp add: map_filter_simps)
next
  case (Cons sg rest)
  show ?case
  proof (cases "tradeOutcome data sg")
    case None
    then show ?thesis using Cons by (simp add: map_filter_simps)
  next
    case (Some out)
    from outcome_pnl[OF Some] show ?thesis
      using Cons Some by (cases "fst out") (simp_all add: map_filter_simps)
  qed
qed

lemma outcomes_count:
  "length (outs :: (BacktestResult \<times> int) list)
     = length (filter (\<lambda>r. fst r = WIN) outs) + length (filter (\<lambda>r. fst r = LOSS) outs)
       + length (filter (\<lambda>r. fst r = PENDING) outs)"
proof (induction outs)
  case Nil
  then show ?case by simp
next
  case (Cons out outs)
  then show ?case by (cases "fst out") simp_all
qed

lemma performBacktest_stats:
  "bs_equityCurve (fst (performBacktest data signals))
     = bt_equityCurve (fst (btRun data btInit signals))"
  "bs_wins (fst (performBacktest data signals)) = bt_wins (fst (btRun data btInit signals))"
  "bs_losses (fst (performBacktest data signals)) = bt_losses (fst (btRun data btInit signals))"
  "bs_netPnL (fst (performBacktest data signals)) = bt_netPnL (fst (btRun data btInit signals))"
  "bs_totalTrades (fst (performBacktest data signals))
     = bt_wins (fst (btRun data btInit signals)) + bt_losses (fst (btRun data btInit signals))"
  by (simp_all add: performBacktest_def case_prod_unfold Let_def)

lemma btInit_fields:
  "bt_equityCurve btInit = [100000]" "bt_currentBalance btInit = 100000"
  "bt_netPnL btInit = 0" "bt_wins btInit = 0" "bt_losses btInit = 0"
  by (simp_all add: btInit_def)

lemma equity_curve_eq:
  "bs_equityCurve (fst (performBacktest data signals))
     = running 100000 (map snd (List.map_filter (tradeOutcome data) signals))"
  using btRun_state[of data btInit signals]
  by (simp add: performBacktest_stats btInit_fields running_tl)

text \<open>
  Claim C3, as amended. The equity curve starts at \<open>100000\<close> and gets one running-balance
  entry for every signal whose bar is found in the series, in the order of the signals,
  whether the trade resolves or stays Pending. A Pending trade has amount \<open>0\<close> and adds
  to neither wins nor losses, so it repeats the previous balance. The length of the
  curve is therefore \<open>1 + wins + losses + pending\<close>, the net result is
  \<open>2000 * wins - 1000 * losses\<close> and the last balance is \<open>100000\<close> plus the net result.
\<close>

theorem equity_curve_per_located_signal:
  "bs_equityCurve (fst (performBacktest data signals))
     = running 100000 (map snd (List.map_filter (tradeOutcome data) signals))
   \<and> length (bs_equityCurve (fst (performBacktest data signals)))
     = 1 + bs_wins (fst (performBacktest data signals))
         + bs_losses (fst (performBacktest data signals))
         + length (filter (\<lambda>r. fst r = PENDING) (List.map_filter (tradeOutcome data) signals))
   \<and> bs_wins (fst (performBacktest data signals))
     = length (filter (\<lambda>r. fst r = WIN) (List.map_filter (tradeOutcome data) signals))
   \<and> bs_losses (fst (performBacktest data signals))
     = length (filter (\<lambda>r. fst r = LOSS) (List.map_filter (tradeOutcome data) signals))
   \<and> map snd (filter (\<lambda>r. fst r = PENDING) (List.map_filter (tradeOutcome data) signals))
     = replicate (length (filter (\<lambda>r. fst r = PENDING)
                            (List.map_filter (tradeOutcome data) signals))) 0
   \<and> bs_netPnL (fst (performBacktest data signals))
     = 2000 * int (bs_wins (fst (performBacktest data signals)))
       - 1000 * int (bs_losses (fst (performBacktest data signals)))
   \<and> last (bs_equityCurve (fst (performBacktest data signals)))
     = 100000 + bs_netPnL (fst (performBacktest data signals))"
proof -
  let ?outs = "List.map_filter (tradeOutcome data) signals"
  note st = btRun_state[of data btInit signals]
  have wins: "bs_wins (fst (performBacktest data signals))
      = length (filter (\<lambda>r. fst r = WIN) ?outs)"
    using st by (simp add: performBacktest_stats btInit_fields)
  have losses: "bs_losses (fst (performBacktest data signals))
      = length (filter (\<lambda>r. fst r = LOSS) ?outs)"
    using st by (simp add: performBacktest_stats btInit_fields)
  have net: "bs_netPnL (fst (performBacktest data signals)) = sum_list (map snd ?outs)"
    using st by (simp add: performBacktest_stats btInit_fields)
  have len: "length (bs_equityCurve (fst (performBacktest data signals))) = 1 + length ?outs"
    by (simp add: equity_curve_eq length_running)
  have "length (bs_equityCurve (fst (performBacktest data signals)))
     = 1 + bs_wins (fst (performBacktest data signals))
         + bs_losses (fst (performBacktest data signals))
         + length (filter (\<lambda>r. fst r = PENDING) ?outs)"
    unfolding len wins losses using outcomes_count[of ?outs] by simp
  moreover have "bs_netPnL (fst (performBacktest data signals))
     = 2000 * int (bs_wins (fst (performBacktest data signals)))
       - 1000 * int (bs_losses (fst (performBacktest data signals)))"
    unfolding net wins losses by (rule outcomes_sum)
  moreover have "last (bs_equityCurve (fst (performBacktest data signals)))
     = 100000 + bs_netPnL (fst (performBacktest data signals))"
    unfolding net by (simp add: equity_curve_eq last_running)
  ultimately show ?thesis
    using equity_curve_eq[of data signals] wins losses outcomes_pending[of data signals]
    by (intro conjI)
qed

theorem equity_curve_per_located_signal_witness:
  "bs_equityCurve (fst (performBacktest
       [bar 0 100 100 100 100, bar 300 100 103 100 102, bar 600 102 102 102 102]
       [mkSignal 0 LONG 100 99 102, mkSignal 600 LONG 102 101 104]))
     = [100000, 102000, 102000]
   \<and> bs_wins (fst (performBacktest
       [bar 0 100 100 100 100, bar 300 100 103 100 102, bar 600 102 102 102 102]
       [mkSignal 0 LONG 100 99 102, mkSignal 600 LONG 102 101 104])) = 1
   \<and> bs_losses (fst (performBacktest
       [bar 0 100 100 100 100, bar 300 100 103 100 102, bar 600 102 102 102 102]
       [mkSignal 0 LONG 100 99 102, mkSignal 600 LONG 102 101 104])) = 0"
proof -
  have outs: "List.map_filter (tradeOutcome
       [bar 0 100 100 100 100, bar 300 100 103 100 102, bar 600 102 102 102 102])
       [mkSignal 0 LONG 100 99 102, mkSignal 600 LONG 102 101 104]
     = [(WIN, 2000), (PENDING, 0)]"
    by (simp add: map_filter_simps tradeOutcome_def mkSignal_def bar_def
        RISK_AMOUNT_def REWARD_AMOUNT_def)
  note t = equity_curve_per_located_signal[of
       "[bar 0 100 100 100 100, bar 300 100 103 100 102, bar 600 102 102 102 102]"
       "[mkSignal 0 LONG 100 99 102, mkSignal 600 LONG 102 101 104]", unfolded outs]
  from t[THEN conjunct1] t[THEN conjunct2, THEN conjunct2, THEN conjunct1]
    t[THEN conjunct2, THEN conjunct2, THEN conjunct2, THEN conjunct1]
  show ?thesis by simp
qed

text \<open>
  Claim C3 as stated gives the curve the length \<open>1 + wins + losses\<close>. A single signal
  that stays Pending leaves wins and losses at \<open>0\<close> and still appends a balance.
\<close>

theorem pending_signal_equity_counterexample:
  "bs_equityCurve (fst (performBacktest
       [bar 0 100 100 100 100, bar 300 100 101 100 100] [mkSignal 0 LONG 100 99 102]))
     = [100000, 100000]
   \<and> bs_wins (fst (performBacktest
       [bar 0 100 100 100 100, bar 300 100 101 100 100] [mkSignal 0 LONG 100 99 102])) = 0
   \<and> bs_losses (fst (performBacktest
       [bar 0 100 100 100 100, bar 300 100 101 100 100] [mkSignal 0 LONG 100 99 102])) = 0
   \<and> map es_backtestResult (snd (performBacktest
       [bar 0 100 100 100 100, bar 300 100 101 100 100] [mkSignal 0 LONG 100 99 102]))
     = [Some PENDING]"
  by (simp add: performBacktest_def btSignal_def btInit_def mkSignal_def bar_def Let_def
      RISK_AMOUNT_def REWARD_AMOUNT_def)

section \<open>Fair value gaps\<close>

lemma scanFVG_eq:
  "scanFVG f cs =
     (if list_ex (\<lambda>c. fvg_direction f = Bullish \<and> c_low c < fvg_priceLow f
                      \<or> fvg_direction f = Bearish \<and> c_high c > fvg_priceHigh f) cs
      then f\<lparr>fvg_mitigated := True\<rparr> else f)"
  by (induction cs) simp_all

lemma list_ex_filter: "list_ex P (filter Q xs) = list_ex (\<lambda>x. Q x \<and> P x) xs"
  by (induction xs) simp_all

lemma set_collectFVG:
  "set (collectFVG data) = (\<Union>i\<in>{2 ..< length data}. set (fvgsAt data i))"
  by (simp add: collectFVG_def)

lemma fvgsAt_unmitigated: "f \<in> set (fvgsAt data i) \<Longrightarrow> \<not> fvg_mitigated f"
  by (auto simp: fvgsAt_def Let_def split: if_splits)

lemma detectFVG_member:
  "g \<in> set (detectFVG data) \<longleftrightarrow>
     (\<exists>i. 2 \<le> i \<and> i < length data \<and> g \<in> set (fvgsAt data i)
        \<and> \<not> list_ex (\<lambda>c. c_time c > fvg_time g
                            \<and> (fvg_direction g = Bullish \<and> c_low c < fvg_priceLow g
                               \<or> fvg_direction g = Bearish \<and> c_high c > fvg_priceHigh g)) data)"
proof
  assume "g \<in> set (detectFVG data)"
  then obtain f where f: "f \<in> set (collectFVG data)"
      "g = scanFVG f (futureCandles data f)" "\<not> fvg_mitigated g"
    by (auto simp: detectFVG_def)
  from f(1) obtain i where i: "2 \<le> i" "i < length data" "f \<in> set (fvgsAt data i)"
    by (auto simp: set_collectFVG)
  have nm: "\<not> fvg_mitigated f" using i(3) by (rule fvgsAt_unmitigated)
  from f(2,3) have no: "\<not> list_ex (\<lambda>c. fvg_direction f = Bullish \<and> c_low c < fvg_priceLow f
                      \<or> fvg_direction f = Bearish \<and> c_high c > fvg_priceHigh f)
                 (futureCandles data f)"
    by (simp add: scanFVG_eq split: if_splits)
  with f(2) have gf: "g = f" by (simp add: scanFVG_eq)
  from no have "\<not> list_ex (\<lambda>c. c_time c > fvg_time g
                            \<and> (fvg_direction g = Bullish \<and> c_low c < fvg_priceLow g
                               \<or> fvg_direction g = Bearish \<and> c_high c > fvg_priceHigh g)) data"
    unfolding gf futureCandles_def list_ex_filter .
  with i gf show "\<exists>i. 2 \<le> i \<and> i < length data \<and> g \<in> set (fvgsAt data i)
        \<and> \<not> list_ex (\<lambda>c. c_time c > fvg_time g
                            \<and> (fvg_direction g = Bullish \<and> c_low c < fvg_priceLow g
                               \<or> fvg_direction g = Bearish \<and> c_high c > fvg_priceHigh g)) data"
    by blast
next
  assume "\<exists>i. 2 \<le> i \<and> i < length data \<and> g \<in> set (fvgsAt data i)
        \<and> \<not> list_ex (\<lambda>c. c_time c > fvg_time g
                            \<and> (fvg_direction g = Bullish \<and> c_low c < fvg_priceLow g
                               \<or> fvg_direction g = Bearish \<and> c_high c > fvg_priceHigh g)) data"
  then obtain i where i: "2 \<le> i" "i < length data" "g \<in> set (fvgsAt data i)"
    and no: "\<not> list_ex (\<lambda>c. c_time c > fvg_time g
                            \<and> (fvg_direction g = Bullish \<and> c_low c < fvg_priceLow g
                               \<or> fvg_direction g = Bearish \<and> c_high c > fvg_priceHigh g)) data"
    by blast
  from i have mem: "g \<in> set (collectFVG data)" by (auto simp: set_collectFVG)
  from no have sc: "scanFVG g (futureCandles data g) = g"
    unfolding futureCandles_def scanFVG_eq list_ex_filter by simp
  have nm: "\<not> fvg_mitigated g" using i(3) by (rule fvgsAt_unmitigated)
  have "scanFVG g (futureCandles data g) \<in> (\<lambda>fvg. scanFVG fvg (futureCandles data fvg)) ` set (collectFVG data)"
    using mem by (rule imageI)
  then have "g \<in> (\<lambda>fvg. scanFVG fvg (futureCandles data fvg)) ` set (collectFVG data)"
    unfolding sc .
  with nm show "g \<in> set (detectFVG data)" by (simp add: detectFVG_def)
qed

lemma fvgsAt_member:
  "g \<in> set (fvgsAt data i) \<longleftrightarrow>
     (c_high (data ! (i - 2)) < c_low (data ! i)
        \<and> g = \<lparr>fvg_id = (''fvg-bull-'', c_time (data ! (i - 1))),
                fvg_time = c_time (data ! (i - 1)),
                fvg_priceHigh = c_low (data ! i), fvg_priceLow = c_high (data ! (i - 2)),
                fvg_direction = Bullish, fvg_mitigated = False,
                fvg_isSilverBullet = isSilverBulletHour (getUTCHours (c_time (data ! (i - 1))))\<rparr>
      \<or> c_low (data ! (i - 2)) > c_high (data ! i)
        \<and> g = \<lparr>fvg_id = (''fvg-bear-'', c_time (data ! (i - 1))),
                fvg_time = c_time (data ! (i - 1)),
                fvg_priceHigh = c_low (data ! (i - 2)), fvg_priceLow = c_high (data ! i),
                fvg_direction = Bearish, fvg_mitigated = False,
                fvg_isSilverBullet = isSilverBulletHour (getUTCHours (c_time (data ! (i - 1))))\<rparr>)"
  unfolding fvgsAt_def Let_def
  by (cases "c_high (data ! (i - 2)) < c_low (data ! i)";
      cases "c_low (data ! (i - 2)) > c_high (data ! i)") auto

lemma detectFVG_iff:
  "g \<in> set (detectFVG data) \<longleftrightarrow>
      (\<exists>i. 2 \<le> i \<and> i < length data \<and>
         (c_high (data ! (i - 2)) < c_low (data ! i)
            \<and> g = \<lparr>fvg_id = (''fvg-bull-'', c_time (data ! (i - 1))),
                    fvg_time = c_time (data ! (i - 1)),
                    fvg_priceHigh = c_low (data ! i), fvg_priceLow = c_high (data ! (i - 2)),
                    fvg_direction = Bullish, fvg_mitigated = False,
                    fvg_isSilverBullet =
                      isSilverBulletHour (getUTCHours (c_time (data ! (i - 1))))\<rparr>
            \<and> \<not> list_ex (\<lambda>c. c_time c > c_time (data ! (i - 1))
                                \<and> c_low c < c_high (data ! (i - 2))) data
          \<or> c_low (data ! (i - 2)) > c_high (data ! i)
            \<and> g = \<lparr>fvg_id = (''fvg-bear-'', c_time (data ! (i - 1))),
                    fvg_time = c_time (data ! (i - 1)),
                    fvg_priceHigh = c_low (data ! (i - 2)), fvg_priceLow = c_high (data ! i),
                    fvg_direction = Bearish, fvg_mitigated = False,
                    fvg_isSilverBullet =
                      isSilverBulletHour (getUTCHours (c_time (data ! (i - 1))))\<rparr>
            \<and> \<not> list_ex (\<lambda>c. c_time c > c_time (data ! (i - 1))
                                \<and> c_high c > c_low (data ! (i - 2))) data))"
  (is "?L \<longleftrightarrow> (\<exists>i. ?R i)")
proof
  assume ?L
  then obtain i where i: "2 \<le> i" "i < length data" "g \<in> set (fvgsAt data i)"
    and no: "\<not> list_ex (\<lambda>c. c_time c > fvg_time g
                            \<and> (fvg_direction g = Bullish \<and> c_low c < fvg_priceLow g
                               \<or> fvg_direction g = Bearish \<and> c_high c > fvg_priceHigh g)) data"
    unfolding detectFVG_member by blast
  from i(3) consider (bull) "c_high (data ! (i - 2)) < c_low (data ! i)"
      "g = \<lparr>fvg_id = (''fvg-bull-'', c_time (data ! (i - 1))),
                fvg_time = c_time (data ! (i - 1)),
                fvg_priceHigh = c_low (data ! i), fvg_priceLow = c_high (data ! (i - 2)),
                fvg_direction = Bullish, fvg_mitigated = False,
                fvg_isSilverBullet = isSilverBulletHour (getUTCHours (c_time (data ! (i - 1))))\<rparr>"
    | (bear) "c_low (data ! (i - 2)) > c_high (data ! i)"
      "g = \<lparr>fvg_id = (''fvg-bear-'', c_time (data ! (i - 1))),
                fvg_time = c_time (data ! (i - 1)),
                fvg_priceHigh = c_low (data ! (i - 2)), fvg_priceLow = c_high (data ! i),
                fvg_direction = Bearish, fvg_mitigated = False,
                fvg_isSilverBullet = isSilverBulletHour (getUTCHours (c_time (data ! (i - 1))))\<rparr>"
    unfolding fvgsAt_member by blast
  then have "?R i"
  proof cases
    case bull
    from no have "\<not> list_ex (\<lambda>c. c_time c > c_time (data ! (i - 1))
                                \<and> c_low c < c_high (data ! (i - 2))) data"
      unfolding bull(2) by simp
    with bull i(1,2) show ?thesis by blast
  next
    case bear
    from no have "\<not> list_ex (\<lambda>c. c_time c > c_time (data ! (i - 1))
                                \<and> c_high c > c_low (data ! (i - 2))) data"
      unfolding bear(2) by simp
    with bear i(1,2) show ?thesis by blast
  qed
  then show "\<exists>i. ?R i" by (rule exI[where x = i])
next
  assume "\<exists>i. ?R i"
  then obtain i where r: "?R i" ..
  then have i: "2 \<le> i" "i < length data" by blast+
  from r consider (bull) "c_high (data ! (i - 2)) < c_low (data ! i)"
      "g = \<lparr>fvg_id = (''fvg-bull-'', c_time (data ! (i - 1))),
                fvg_time = c_time (data ! (i - 1)),
                fvg_priceHigh = c_low (data ! i), fvg_priceLow = c_high (data ! (i - 2)),
                fvg_direction = Bullish, fvg_mitigated = False,
                fvg_isSilverBullet = isSilverBulletHour (getUTCHours (c_time (data ! (i - 1))))\<rparr>"
      "\<not> list_ex (\<lambda>c. c_time c > c_time (data ! (i - 1))
                                \<and> c_low c < c_high (data ! (i - 2))) data"
    | (bear) "c_low (data ! (i - 2)) > c_high (data ! i)"
      "g = \<lparr>fvg_id = (''fvg-bear-'', c_time (data ! (i - 1))),
                fvg_time = c_time (data ! (i - 1)),
                fvg_priceHigh = c_low (data ! (i - 2)), fvg_priceLow = c_high (data ! i),
                fvg_direction = Bearish, fvg_mitigated = False,
                fvg_isSilverBullet = isSilverBulletHour (getUTCHours (c_time (data ! (i - 1))))\<rparr>"
      "\<not> list_ex (\<lambda>c. c_time c > c_time (data ! (i - 1))
                                \<and> c_high c > c_low (data ! (i - 2))) data"
    by blast
  then show ?L
  proof cases
    case bull
    have m: "g \<in> set (fvgsAt data i)" unfolding fvgsAt_member using bull(1,2) by blast
    have "\<not> list_ex (\<lambda>c. c_time c > fvg_time g
                            \<and> (fvg_direction g = Bullish \<and> c_low c < fvg_priceLow g
                               \<or> fvg_direction g = Bearish \<and> c_high c > fvg_priceHigh g)) data"
      using bull(3) unfolding bull(2) by simp
    with i m show ?thesis unfolding detectFVG_member by blast
  next
    case bear
    have m: "g \<in> set (fvgsAt data i)" unfolding fvgsAt_member using bear(1,2) by blast
    have "\<not> list_ex (\<lambda>c. c_time c > fvg_time g
                            \<and> (fvg_direction g = Bullish \<and> c_low c < fvg_priceLow g
                               \<or> fvg_direction g = Bearish \<and> c_high c > fvg_priceHigh g)) data"
      using bear(3) unfolding bear(2) by simp
    with i m show ?thesis unfolding detectFVG_member by blast
  qed
qed

lemma triplet_gap:
  assumes "c_high b0 = 100" "c_low b2 = 105" "c_time b0 < c_time b1" "c_time b1 < c_time b2"
  shows "\<lparr>fvg_id = (''fvg-bull-'', c_time b1), fvg_time = c_time b1,
           fvg_priceHigh = 105, fvg_priceLow = 100,
           fvg_direction = Bullish, fvg_mitigated = False,
           fvg_isSilverBullet = isSilverBulletHour (getUTCHours (c_time b1))\<rparr>
         \<in> set (detectFVG [b0, b1, b2])"
  unfolding detectFVG_iff
  by (rule exI[of _ 2]) (use assms in simp)

lemma fvgsAt_fields:
  "g \<in> set (fvgsAt data i) \<Longrightarrow> fvg_direction g = Bullish \<Longrightarrow>
   fvg_time g = c_time (data ! (i - 1)) \<and> fvg_priceLow g = c_high (data ! (i - 2))"
  unfolding fvgsAt_def Let_def
  by (cases "c_high (data ! (i - 2)) < c_low (data ! i)";
      cases "c_low (data ! (i - 2)) > c_high (data ! i)") auto

lemma triplet_gap_filled:
  assumes "c_high b0 = 100" "c_low b2 = 105" "c_time b0 < c_time b1" "c_time b1 < c_time b2"
    "c_time b2 < c_time b3" "c_low b3 < 100"
  shows "\<not> list_ex (\<lambda>g. fvg_direction g = Bullish \<and> fvg_time g = c_time b1)
             (detectFVG [b0, b1, b2, b3])"
proof
  assume "list_ex (\<lambda>g. fvg_direction g = Bullish \<and> fvg_time g = c_time b1)
             (detectFVG [b0, b1, b2, b3])"
  then obtain g where g: "g \<in> set (detectFVG [b0, b1, b2, b3])"
      "fvg_direction g = Bullish" "fvg_time g = c_time b1"
    unfolding list_ex_iff by blast
  from g(1) obtain i where i: "2 \<le> i" "i < length [b0, b1, b2, b3]"
    and m: "g \<in> set (fvgsAt [b0, b1, b2, b3] i)"
    and no: "\<not> list_ex (\<lambda>c. c_time c > fvg_time g
                            \<and> (fvg_direction g = Bullish \<and> c_low c < fvg_priceLow g
                               \<or> fvg_direction g = Bearish \<and> c_high c > fvg_priceHigh g))
                 [b0, b1, b2, b3]"
    unfolding detectFVG_member by blast
  note f = fvgsAt_fields[OF m g(2)]
  from i have "i = 2 \<or> i = 3" by simp arith
  then show False
  proof
    assume "i = 2"
    with f have "fvg_priceLow g = c_high b0" by simp
    with no g(2,3) assms show False by simp
  next
    assume "i = 3"
    with f have "fvg_time g = c_time b2" by simp
    with g(3) assms(4) show False by simp
  qed
qed

text \<open>
  Claim C6. A gap is in the result of the detector exactly when it is the bullish gap
  of some index \<open>i \<ge> 2\<close> with \<open>bar[i-2].high < bar[i].low\<close>, band
  \<open>[bar[i-2].high, bar[i].low]\<close> and anchor \<open>bar[i-1].time\<close>, and no bar with a later
  timestamp has its low below the lower bound; or the mirror-image bearish gap, with no
  later bar's high above the upper bound. In particular a triplet with \<open>high[0] = 100\<close>
  and \<open>low[2] = 105\<close> yields the bullish gap with band \<open>[100, 105]\<close>, and a fourth bar
  with a low below \<open>100\<close> removes it.
\<close>

theorem fvg_detection:
  "(g \<in> set (detectFVG data) \<longleftrightarrow>
      (\<exists>i. 2 \<le> i \<and> i < length data \<and>
         (c_high (data ! (i - 2)) < c_low (data ! i)
            \<and> g = \<lparr>fvg_id = (''fvg-bull-'', c_time (data ! (i - 1))),
                    fvg_time = c_time (data ! (i - 1)),
                    fvg_priceHigh = c_low (data ! i), fvg_priceLow = c_high (data ! (i - 2)),
                    fvg_direction = Bullish, fvg_mitigated = False,
                    fvg_isSilverBullet =
                      isSilverBulletHour (getUTCHours (c_time (data ! (i - 1))))\<rparr>
            \<and> \<not> list_ex (\<lambda>c. c_time c > c_time (data ! (i - 1))
                                \<and> c_low c < c_high (data ! (i - 2))) data
          \<or> c_low (data ! (i - 2)) > c_high (data ! i)
            \<and> g = \<lparr>fvg_id = (''fvg-bear-'', c_time (data ! (i - 1))),
                    fvg_time = c_time (data ! (i - 1)),
                    fvg_priceHigh = c_low (data ! (i - 2)), fvg_priceLow = c_high (data ! i),
                    fvg_direction = Bearish, fvg_mitigated = False,
                    fvg_isSilverBullet =
                      isSilverBulletHour (getUTCHours (c_time (data ! (i - 1))))\<rparr>
            \<and> \<not> list_ex (\<lambda>c. c_time c > c_time (data ! (i - 1))
                                \<and> c_high c > c_low (data ! (i - 2))) data)))
   \<and> (c_high b0 = 100 \<and> c_low b2 = 105 \<and> c_time b0 < c_time b1 \<and> c_time b1 < c_time b2
        \<longrightarrow> \<lparr>fvg_id = (''fvg-bull-'', c_time b1), fvg_time = c_time b1,
               fvg_priceHigh = 105, fvg_priceLow = 100,
               fvg_direction = Bullish, fvg_mitigated = False,
               fvg_isSilverBullet = isSilverBulletHour (getUTCHours (c_time b1))\<rparr>
             \<in> set (detectFVG [b0, b1, b2]))
   \<and> (c_high b0 = 100 \<and> c_low b2 = 105 \<and> c_time b0 < c_time b1 \<and> c_time b1 < c_time b2
        \<and> c_time b2 < c_time b3 \<and> c_low b3 < 100
        \<longrightarrow> \<not> list_ex (\<lambda>g. fvg_direction g = Bullish \<and> fvg_time g = c_time b1)
                  (detectFVG [b0, b1, b2, b3]))"
proof (intro conjI impI)
  show "g \<in> set (detectFVG data) \<longleftrightarrow>
      (\<exists>i. 2 \<le> i \<and> i < length data \<and>
         (c_high (data ! (i - 2)) < c_low (data ! i)
            \<and> g = \<lparr>fvg_id = (''fvg-bull-'', c_time (data ! (i - 1))),
                    fvg_time = c_time (data ! (i - 1)),
                    fvg_priceHigh = c_low (data ! i), fvg_priceLow = c_high (data ! (i - 2)),
                    fvg_direction = Bullish, fvg_mitigated = False,
                    fvg_isSilverBullet =
                      isSilverBulletHour (getUTCHours (c_time (data ! (i - 1))))\<rparr>
            \<and> \<not> list_ex (\<lambda>c. c_time c > c_time (data ! (i - 1))
                                \<and> c_low c < c_high (data ! (i - 2))) data
          \<or> c_low (data ! (i - 2)) > c_high (data ! i)
            \<and> g = \<lparr>fvg_id = (''fvg-bear-'', c_time (data ! (i - 1))),
                    fvg_time = c_time (data ! (i - 1)),
                    fvg_priceHigh = c_low (data ! (i - 2)), fvg_priceLow = c_high (data ! i),
                    fvg_direction = Bearish, fvg_mitigated = False,
                    fvg_isSilverBullet =
                      isSilverBulletHour (getUTCHours (c_time (data ! (i - 1))))\<rparr>
            \<and> \<not> list_ex (\<lambda>c. c_time c > c_time (data ! (i - 1))
                                \<and> c_high c > c_low (data ! (i - 2))) data))"
    by (rule detectFVG_iff)
next
  assume "c_high b0 = 100 \<and> c_low b2 = 105 \<and> c_time b0 < c_time b1 \<and> c_time b1 < c_time b2"
  then show "\<lparr>fvg_id = (''fvg-bull-'', c_time b1), fvg_time = c_time b1,
               fvg_priceHigh = 105, fvg_priceLow = 100,
               fvg_direction = Bullish, fvg_mitigated = False,
               fvg_isSilverBullet = isSilverBulletHour (getUTCHours (c_time b1))\<rparr>
             \<in> set (detectFVG [b0, b1, b2])"
    using triplet_gap[of b0 b2 b1] by (elim conjE) simp
next
  assume "c_high b0 = 100 \<and> c_low b2 = 105 \<and> c_time b0 < c_time b1 \<and> c_time b1 < c_time b2
        \<and> c_time b2 < c_time b3 \<and> c_low b3 < 100"
  then show "\<not> list_ex (\<lambda>g. fvg_direction g = Bullish \<and> fvg_time g = c_time b1)
                  (detectFVG [b0, b1, b2, b3])"
    using triplet_gap_filled[of b0 b2 b1 b3] by (elim conjE) simp
qed

theorem fvg_detection_witness:
  "detectFVG [bar 0 99 100 98 99, bar 300 99 106 99 106, bar 600 106 108 105 107]
     = [\<lparr>fvg_id = (''fvg-bull-'', 300), fvg_time = 300, fvg_priceHigh = 105,
          fvg_priceLow = 100, fvg_direction = Bullish, fvg_mitigated = False,
          fvg_isSilverBullet = False\<rparr>]
   \<and> \<lparr>fvg_id = (''fvg-bull-'', 300), fvg_time = 300, fvg_priceHigh = 105,
          fvg_priceLow = 100, fvg_direction = Bullish, fvg_mitigated = False,
          fvg_isSilverBullet = False\<rparr>
       \<in> set (detectFVG [bar 0 99 100 98 99, bar 300 99 106 99 106, bar 600 106 108 105 107])
   \<and> \<not> list_ex (\<lambda>g. fvg_direction g = Bullish \<and> fvg_time g = 300)
         (detectFVG [bar 0 99 100 98 99, bar 300 99 106 99 106, bar 600 106 108 105 107,
                     bar 900 107 107 99 100])"
proof -
  have h2: "c_high (bar 0 99 100 98 99) = 100 \<and> c_low (bar 600 106 108 105 107) = 105
      \<and> c_time (bar 0 99 100 98 99) < c_time (bar 300 99 106 99 106)
      \<and> c_time (bar 300 99 106 99 106) < c_time (bar 600 106 108 105 107)"
    by (simp add: bar_def)
  have h3: "c_high (bar 0 99 100 98 99) = 100 \<and> c_low (bar 600 106 108 105 107) = 105
      \<and> c_time (bar 0 99 100 98 99) < c_time (bar 300 99 106 99 106)
      \<and> c_time (bar 300 99 106 99 106) < c_time (bar 600 106 108 105 107)
      \<and> c_time (bar 600 106 108 105 107) < c_time (bar 900 107 107 99 100)
      \<and> c_low (bar 900 107 107 99 100) < 100"
    by (simp add: bar_def)
  note t = fvg_detection[of _ _ "bar 0 99 100 98 99" "bar 600 106 108 105 107"
      "bar 300 99 106 99 106" "bar 900 107 107 99 100"]
  have time1: "c_time (bar 300 99 106 99 106) = 300" by (simp add: bar_def)
  have sb: "isSilverBulletHour (getUTCHours 300) = False"
    by (simp add: isSilverBulletHour_def getUTCHours_def)
  note w2 = t[THEN conjunct2, THEN conjunct1, rule_format, OF h2, unfolded time1 sb]
  note w3 = t[THEN conjunct2, THEN conjunct2, rule_format, OF h3, unfolded time1]
  have w1: "detectFVG [bar 0 99 100 98 99, bar 300 99 106 99 106, bar 600 106 108 105 107]
     = [\<lparr>fvg_id = (''fvg-bull-'', 300), fvg_time = 300, fvg_priceHigh = 105,
          fvg_priceLow = 100, fvg_direction = Bullish, fvg_mitigated = False,
          fvg_isSilverBullet = False\<rparr>]"
    by (simp add: detectFVG_def collectFVG_def fvgsAt_def futureCandles_def bar_def upt_rec
        isSilverBulletHour_def getUTCHours_def)
  from w1 w2 w3 show ?thesis by (intro conjI)
qed

section \<open>Confluence lookups\<close>

lemma find_first_match:
  "find P xs = Some z \<longleftrightarrow> (\<exists>i<length xs. xs ! i = z \<and> P z \<and> (\<forall>j<i. \<not> P (xs ! j)))"
  unfolding find_Some_iff by metis

lemma find_no_match: "find P xs = None \<longleftrightarrow> \<not> list_ex P xs"
  by (auto simp: find_None_iff list_ex_iff)

lemma obStep_time: "ob_time (obStep ob c) = ob_time ob"
  by (simp add: obStep_def)

lemma obScan_time: "ob_time (obScan ob bars) = ob_time ob"
  unfolding obScan_def by (induction bars arbitrary: ob) (simp_all add: obStep_time)

lemma obLifecycle_time: "ob_time (obLifecycle data ob) = ob_time ob"
  by (cases "findIndex (\<lambda>d. c_time d = ob_time ob) data")
    (simp_all add: obLifecycle_def obScan_time)

lemma sorted_nth_times:
  "sorted (map c_time data) \<Longrightarrow> i \<le> j \<Longrightarrow> j < length data \<Longrightarrow>
   c_time (data ! i) \<le> c_time (data ! j)"
  using sorted_nth_mono[of "map c_time data" i j] by simp

lemma obsAt_times:
  "obsAt data thr i = Some new \<Longrightarrow> ob \<in> set new \<Longrightarrow> ob_time ob = c_time (data ! i)"
proof -
  assume a: "obsAt data thr i = Some new" and b: "ob \<in> set new"
  from obsAt_member[OF a b] show ?thesis by (elim conjE)
qed

lemma obsAt_sorted:
  "obsAt data thr i = Some new \<Longrightarrow> sorted (map ob_time new)"
proof -
  assume a: "obsAt data thr i = Some new"
  have "\<forall>x\<in>set new. \<forall>y\<in>set new. ob_time x \<le> ob_time y"
    using obsAt_times[OF a] by simp
  then show ?thesis by (induction new) auto
qed

lemma collectOB_sorted:
  "collectOB data thr idxs = Some obs \<Longrightarrow> sorted (map c_time data) \<Longrightarrow> sorted idxs \<Longrightarrow>
   list_all (\<lambda>i. i < length data) idxs \<Longrightarrow> sorted (map ob_time obs)"
proof (induction idxs arbitrary: obs)
  case Nil
  then show ?case by simp
next
  case (Cons i idxs)
  from collectOB_Cons_Some[OF Cons.prems(1)] obtain new others where
    parts: "obsAt data thr i = Some new" "collectOB data thr idxs = Some others"
      "obs = new @ others"
    by blast
  have s1: "sorted (map ob_time new)" using parts(1) by (rule obsAt_sorted)
  have s2: "sorted (map ob_time others)"
    using Cons.IH[OF parts(2) Cons.prems(2)] Cons.prems(3,4) by simp
  have cross: "ob_time x \<le> ob_time y" if "x \<in> set new" "y \<in> set others" for x y
  proof -
    from collectOB_member[OF parts(2) that(2)] obtain k new' where
      k: "k \<in> set idxs" "obsAt data thr k = Some new'" "y \<in> set new'" by blast
    have "i \<le> k" using Cons.prems(3) k(1) by simp
    moreover have "k < length data" using Cons.prems(4) k(1) by (simp add: list_all_iff)
    ultimately have "c_time (data ! i) \<le> c_time (data ! k)"
      using sorted_nth_times[OF Cons.prems(2)] by blast
    then show ?thesis
      using obsAt_times[OF parts(1) that(1)] obsAt_times[OF k(2,3)] by simp
  qed
  show ?case unfolding parts(3) using s1 s2 cross by (simp add: sorted_append)
qed

lemma detectOrderBlocks_sorted:
  assumes "detectOrderBlocks data m = Some obs" "sorted (map c_time data)"
  shows "sorted (map ob_time obs)"
proof -
  from detectOrderBlocks_Some[OF assms(1)] obtain cands where
    c: "collectOB data (IMPULSE_THRESHOLD data m) [2 ..< length data - 3] = Some cands"
    and res: "obs = sliceLast 10 (filter (\<lambda>ob. \<not> ob_mitigated ob) (map (obLifecycle data) cands))"
    by blast
  have "list_all (\<lambda>i. i < length data) [2 ..< length data - 3]"
    by (auto simp: list_all_iff)
  with collectOB_sorted[OF c assms(2)] have s: "sorted (map ob_time cands)" by simp
  have "ob_time \<circ> obLifecycle data = ob_time"
    by (rule ext) (simp add: obLifecycle_time)
  then have "map ob_time (map (obLifecycle data) cands) = map ob_time cands"
    by (simp only: map_map)
  with s have "sorted (map ob_time (map (obLifecycle data) cands))" by (simp only:)
  then have "sorted (map ob_time (filter (\<lambda>ob. \<not> ob_mitigated ob) (map (obLifecycle data) cands)))"
    by (rule sorted_filter)
  then show ?thesis unfolding res sliceLast_def drop_map[symmetric] by (rule sorted_wrt_drop)
qed


lemma fvgsAt_time: "g \<in> set (fvgsAt data i) \<Longrightarrow> fvg_time g = c_time (data ! (i - 1))"
  unfolding fvgsAt_def Let_def
  by (cases "c_high (data ! (i - 2)) < c_low (data ! i)";
      cases "c_low (data ! (i - 2)) > c_high (data ! i)") auto

lemma fvgsAt_sorted: "sorted (map fvg_time (fvgsAt data i))"
  unfolding fvgsAt_def Let_def
  by (cases "c_high (data ! (i - 2)) < c_low (data ! i)";
      cases "c_low (data ! (i - 2)) > c_high (data ! i)") auto

lemma concat_fvgsAt_sorted:
  "sorted (map c_time data) \<Longrightarrow> sorted idxs \<Longrightarrow> list_all (\<lambda>i. i < length data) idxs \<Longrightarrow>
   sorted (map fvg_time (concat (map (fvgsAt data) idxs)))"
proof (induction idxs)
  case Nil
  then show ?case by simp
next
  case (Cons i idxs)
  have s2: "sorted (map fvg_time (concat (map (fvgsAt data) idxs)))"
    using Cons by simp
  have cross: "fvg_time x \<le> fvg_time y"
    if "x \<in> set (fvgsAt data i)" "y \<in> set (concat (map (fvgsAt data) idxs))" for x y
  proof -
    from that(2) obtain k where k: "k \<in> set idxs" "y \<in> set (fvgsAt data k)" by auto
    have "i \<le> k" using Cons.prems(2) k(1) by simp
    then have "i - 1 \<le> k - 1" by simp
    moreover have "k - 1 < length data" using Cons.prems(3) k(1) by (auto simp: list_all_iff)
    ultimately have "c_time (data ! (i - 1)) \<le> c_time (data ! (k - 1))"
      using sorted_nth_times[OF Cons.prems(1)] by blast
    then show ?thesis using fvgsAt_time[OF that(1)] fvgsAt_time[OF k(2)] by simp
  qed
  show ?case using fvgsAt_sorted[of data i] s2 cross by (auto simp: sorted_append)
qed

lemma scanFVG_time: "fvg_time (scanFVG f cs) = fvg_time f"
  by (simp add: scanFVG_eq)

lemma detectFVG_sorted:
  assumes "sorted (map c_time data)"
  shows "sorted (map fvg_time (detectFVG data))"
proof -
  have "list_all (\<lambda>i. i < length data) [2 ..< length data]" by (simp add: list_all_iff)
  with concat_fvgsAt_sorted[OF assms, of "[2 ..< length data]"]
  have s: "sorted (map fvg_time (collectFVG data))" by (simp add: collectFVG_def)
  have "fvg_time \<circ> (\<lambda>fvg. scanFVG fvg (futureCandles data fvg)) = fvg_time"
    by (rule ext) (simp add: scanFVG_time)
  then have "map fvg_time (map (\<lambda>fvg. scanFVG fvg (futureCandles data fvg)) (collectFVG data))
      = map fvg_time (collectFVG data)"
    by (simp only: map_map)
  with s have "sorted (map fvg_time
      (map (\<lambda>fvg. scanFVG fvg (futureCandles data fvg)) (collectFVG data)))"
    by (simp only:)
  then show ?thesis unfolding detectFVG_def by (rule sorted_filter)
qed

lemma detectFVG_unmitigated: "list_all (\<lambda>f. \<not> fvg_mitigated f) (detectFVG data)"
  by (simp add: detectFVG_def list_all_iff)

text \<open>
  Claim C5. Each of the four touch lookups returns the element at the least index of
  its list that satisfies the touch condition: for a zone, the wanted direction, not
  mitigated, the bar's low (bullish) or high (bearish) inside the band, and an anchor
  timestamp strictly before the bar's; for a gap the same without the mitigation test.
  The lists the detectors hand over are in ascending order of anchor timestamp when the
  series is, and the gap detector returns unmitigated gaps only, so the first match is
  the earliest-detected unmitigated one, whatever its price distance or age.
\<close>

theorem confluence_first_match:
  "(touchingBullOB obs candle = Some z \<longleftrightarrow>
      (\<exists>i<length obs. obs ! i = z
         \<and> (ob_direction z = Bullish \<and> \<not> ob_mitigated z
              \<and> c_low candle \<le> ob_priceHigh z \<and> c_low candle \<ge> ob_priceLow z
              \<and> ob_time z < c_time candle)
         \<and> (\<forall>j<i. \<not> (ob_direction (obs ! j) = Bullish \<and> \<not> ob_mitigated (obs ! j)
              \<and> c_low candle \<le> ob_priceHigh (obs ! j) \<and> c_low candle \<ge> ob_priceLow (obs ! j)
              \<and> ob_time (obs ! j) < c_time candle))))
   \<and> (touchingBearOB obs candle = Some z \<longleftrightarrow>
      (\<exists>i<length obs. obs ! i = z
         \<and> (ob_direction z = Bearish \<and> \<not> ob_mitigated z
              \<and> c_high candle \<ge> ob_priceLow z \<and> c_high candle \<le> ob_priceHigh z
              \<and> ob_time z < c_time candle)
         \<and> (\<forall>j<i. \<not> (ob_direction (obs ! j) = Bearish \<and> \<not> ob_mitigated (obs ! j)
              \<and> c_high candle \<ge> ob_priceLow (obs ! j) \<and> c_high candle \<le> ob_priceHigh (obs ! j)
              \<and> ob_time (obs ! j) < c_time candle))))
   \<and> (touchingBullFVG fvgs candle = Some f \<longleftrightarrow>
      (\<exists>i<length fvgs. fvgs ! i = f
         \<and> (fvg_direction f = Bullish
              \<and> c_low candle \<le> fvg_priceHigh f \<and> c_low candle \<ge> fvg_priceLow f
              \<and> fvg_time f < c_time candle)
         \<and> (\<forall>j<i. \<not> (fvg_direction (fvgs ! j) = Bullish
              \<and> c_low candle \<le> fvg_priceHigh (fvgs ! j) \<and> c_low candle \<ge> fvg_priceLow (fvgs ! j)
              \<and> fvg_time (fvgs ! j) < c_time candle))))
   \<and> (touchingBearFVG fvgs candle = Some f \<longleftrightarrow>
      (\<exists>i<length fvgs. fvgs ! i = f
         \<and> (fvg_direction f = Bearish
              \<and> c_high candle \<ge> fvg_priceLow f \<and> c_high candle \<le> fvg_priceHigh f
              \<and> fvg_time f < c_time candle)
         \<and> (\<forall>j<i. \<not> (fvg_direction (fvgs ! j) = Bearish
              \<and> c_high candle \<ge> fvg_priceLow (fvgs ! j) \<and> c_high candle \<le> fvg_priceHigh (fvgs ! j)
              \<and> fvg_time (fvgs ! j) < c_time candle))))
   \<and> (sorted (map c_time data) \<and> detectOrderBlocks data m = Some zones
        \<longrightarrow> sorted (map ob_time zones))
   \<and> (sorted (map c_time data) \<longrightarrow> sorted (map fvg_time (detectFVG data)))
   \<and> list_all (\<lambda>f. \<not> fvg_mitigated f) (detectFVG data)"
proof (intro conjI impI)
  show "touchingBullOB obs candle = Some z \<longleftrightarrow>
      (\<exists>i<length obs. obs ! i = z
         \<and> (ob_direction z = Bullish \<and> \<not> ob_mitigated z
              \<and> c_low candle \<le> ob_priceHigh z \<and> c_low candle \<ge> ob_priceLow z
              \<and> ob_time z < c_time candle)
         \<and> (\<forall>j<i. \<not> (ob_direction (obs ! j) = Bullish \<and> \<not> ob_mitigated (obs ! j)
              \<and> c_low candle \<le> ob_priceHigh (obs ! j) \<and> c_low candle \<ge> ob_priceLow (obs ! j)
              \<and> ob_time (obs ! j) < c_time candle)))"
    unfolding touchingBullOB_def by (rule find_first_match)
  show "touchingBearOB obs candle = Some z \<longleftrightarrow>
      (\<exists>i<length obs. obs ! i = z
         \<and> (ob_direction z = Bearish \<and> \<not> ob_mitigated z
              \<and> c_high candle \<ge> ob_priceLow z \<and> c_high candle \<le> ob_priceHigh z
              \<and> ob_time z < c_time candle)
         \<and> (\<forall>j<i. \<not> (ob_direction (obs ! j) = Bearish \<and> \<not> ob_mitigated (obs ! j)
              \<and> c_high candle \<ge> ob_priceLow (obs ! j) \<and> c_high candle \<le> ob_priceHigh (obs ! j)
              \<and> ob_time (obs ! j) < c_time candle)))"
    unfolding touchingBearOB_def by (rule find_first_match)
  show "touchingBullFVG fvgs candle = Some f \<longleftrightarrow>
      (\<exists>i<length fvgs. fvgs ! i = f
         \<and> (fvg_direction f = Bullish
              \<and> c_low candle \<le> fvg_priceHigh f \<and> c_low candle \<ge> fvg_priceLow f
              \<and> fvg_time f < c_time candle)
         \<and> (\<forall>j<i. \<not> (fvg_direction (fvgs ! j) = Bullish
              \<and> c_low candle \<le> fvg_priceHigh (fvgs ! j) \<and> c_low candle \<ge> fvg_priceLow (fvgs ! j)
              \<and> fvg_time (fvgs ! j) < c_time candle)))"
    unfolding touchingBullFVG_def by (rule find_first_match)
  show "touchingBearFVG fvgs candle = Some f \<longleftrightarrow>
      (\<exists>i<length fvgs. fvgs ! i = f
         \<and> (fvg_direction f = Bearish
              \<and> c_high candle \<ge> fvg_priceLow f \<and> c_high candle \<le> fvg_priceHigh f
              \<and> fvg_time f < c_time candle)
         \<and> (\<forall>j<i. \<not> (fvg_direction (fvgs ! j) = Bearish
              \<and> c_high candle \<ge> fvg_priceLow (fvgs ! j) \<and> c_high candle \<le> fvg_priceHigh (fvgs ! j)
              \<and> fvg_time (fvgs ! j) < c_time candle)))"
    unfolding touchingBearFVG_def by (rule find_first_match)
  show "list_all (\<lambda>f. \<not> fvg_mitigated f) (detectFVG data)"
    by (rule detectFVG_unmitigated)
next
  assume "sorted (map c_time data) \<and> detectOrderBlocks data m = Some zones"
  then show "sorted (map ob_time zones)"
    using detectOrderBlocks_sorted[of data m zones] by (elim conjE)
next
  assume "sorted (map c_time data)"
  then show "sorted (map fvg_time (detectFVG data))" by (rule detectFVG_sorted)
qed


theorem confluence_first_match_witness:
  "touchingBullOB [mkZone 100 10 20 Bullish, mkZone 200 14 16 Bullish] (bar 300 17 18 15 17)
     = Some (mkZone 100 10 20 Bullish)
   \<and> touchingBearOB [mkZone 100 10 20 Bearish, mkZone 200 17 19 Bearish] (bar 300 17 18 15 17)
     = Some (mkZone 100 10 20 Bearish)
   \<and> touchingBullFVG [mkGap 100 10 20 Bullish False, mkGap 200 14 16 Bullish True]
       (bar 300 17 18 15 17) = Some (mkGap 100 10 20 Bullish False)
   \<and> touchingBearFVG [mkGap 100 10 20 Bearish False, mkGap 200 17 19 Bearish True]
       (bar 300 17 18 15 17) = Some (mkGap 100 10 20 Bearish False)
   \<and> sorted (map ob_time [sampleZone\<lparr>ob_subtype := Breaker, ob_direction := Bearish\<rparr>])
   \<and> sorted (map fvg_time (detectFVG (zoneSeries 22)))"
proof -
  note t = confluence_first_match[of
      "[mkZone 100 10 20 Bullish, mkZone 200 14 16 Bullish]" "bar 300 17 18 15 17"
      "mkZone 100 10 20 Bullish"
      "[mkGap 100 10 20 Bullish False, mkGap 200 14 16 Bullish True]"
      "mkGap 100 10 20 Bullish False" "zoneSeries 22" "12 / 10"
      "[sampleZone\<lparr>ob_subtype := Breaker, ob_direction := Bearish\<rparr>]"]
  note u = confluence_first_match[of
      "[mkZone 100 10 20 Bearish, mkZone 200 17 19 Bearish]" "bar 300 17 18 15 17"
      "mkZone 100 10 20 Bearish"
      "[mkGap 100 10 20 Bearish False, mkGap 200 17 19 Bearish True]"
      "mkGap 100 10 20 Bearish False"]
  have w1: "touchingBullOB [mkZone 100 10 20 Bullish, mkZone 200 14 16 Bullish]
      (bar 300 17 18 15 17) = Some (mkZone 100 10 20 Bullish)"
    by (rule t[THEN conjunct1, THEN iffD2], rule exI[of _ 0]) (simp add: mkZone_def bar_def)
  have w2: "touchingBearOB [mkZone 100 10 20 Bearish, mkZone 200 17 19 Bearish]
      (bar 300 17 18 15 17) = Some (mkZone 100 10 20 Bearish)"
    by (rule u[THEN conjunct2, THEN conjunct1, THEN iffD2], rule exI[of _ 0])
      (simp add: mkZone_def bar_def)
  have w3: "touchingBullFVG [mkGap 100 10 20 Bullish False, mkGap 200 14 16 Bullish True]
       (bar 300 17 18 15 17) = Some (mkGap 100 10 20 Bullish False)"
    by (rule t[THEN conjunct2, THEN conjunct2, THEN conjunct1, THEN iffD2], rule exI[of _ 0])
      (simp add: mkGap_def bar_def)
  have w4: "touchingBearFVG [mkGap 100 10 20 Bearish False, mkGap 200 17 19 Bearish True]
       (bar 300 17 18 15 17) = Some (mkGap 100 10 20 Bearish False)"
    by (rule u[THEN conjunct2, THEN conjunct2, THEN conjunct2, THEN conjunct1, THEN iffD2],
        rule exI[of _ 0]) (simp add: mkGap_def bar_def)
  have srt: "sorted (map c_time (zoneSeries 22))"
    by (simp add: zoneSeries_def bar_def)
  from srt zoneSeries_detect_breaker
  have h5: "sorted (map c_time (zoneSeries 22)) \<and> detectOrderBlocks (zoneSeries 22) (12 / 10)
      = Some [sampleZone\<lparr>ob_subtype := Breaker, ob_direction := Bearish\<rparr>]"
    by (rule conjI)
  note w5 = t[THEN conjunct2, THEN conjunct2, THEN conjunct2, THEN conjunct2, THEN conjunct1,
      rule_format, OF h5]
  note w6 = t[THEN conjunct2, THEN conjunct2, THEN conjunct2, THEN conjunct2, THEN conjunct2,
      THEN conjunct1, rule_format, OF srt]
  from w1 w2 w3 w4 w5 w6 show ?thesis by (intro conjI)
qed

section \<open>Daily rollup\<close>

lemma map_of_groupPush:
  "map_of (groupPush groups d e) =
     (map_of groups)(d \<mapsto> (case map_of groups d of None \<Rightarrow> [e] | Some v \<Rightarrow> v @ [e]))"
  by (induction groups d e rule: groupPush.induct) (auto simp: fun_eq_iff)

lemma keys_groupPush:
  "map fst (groupPush groups d e) =
     (if d \<in> set (map fst groups) then map fst groups else map fst groups @ [d])"
  by (induction groups d e rule: groupPush.induct) auto

lemma groupFold_map_of:
  "map_of (foldl (\<lambda>groups e. groupPush groups (ld (es_time e)) e) [] es) d =
     (if list_ex (\<lambda>e. ld (es_time e) = d) es
      then Some (filter (\<lambda>e. ld (es_time e) = d) es) else None)"
proof (induction es arbitrary: d rule: rev_induct)
  case Nil
  then show ?case by simp
next
  case (snoc e es)
  then show ?case
    by (auto simp: map_of_groupPush list_ex_iff filter_empty_conv)
qed

lemma groupFold_keys:
  "distinct (map fst (foldl (\<lambda>groups e. groupPush groups (ld (es_time e)) e) [] es))
   \<and> set (map fst (foldl (\<lambda>groups e. groupPush groups (ld (es_time e)) e) [] es))
       = (\<lambda>e. ld (es_time e)) ` set es"
proof (induction es rule: rev_induct)
  case Nil
  then show ?case by simp
next
  case (snoc e es)
  then show ?case by (auto simp: keys_groupPush)
qed

lemma groupByDate_lookup:
  "map_of (groupByDate ld entries) d =
     (if list_ex (\<lambda>e. ld (es_time e) = d) (validEntries entries)
      then Some (filter (\<lambda>e. ld (es_time e) = d) (validEntries entries)) else None)"
  unfolding groupByDate_def by (rule groupFold_map_of)

lemma groupByDate_keys:
  "distinct (map fst (groupByDate ld entries))"
  "set (map fst (groupByDate ld entries)) = (\<lambda>e. ld (es_time e)) ` set (validEntries entries)"
  unfolding groupByDate_def using groupFold_keys[of ld "validEntries entries"] by blast+

lemma sortedDates_props:
  "length (sortedDates ms groups) \<le> 3"
  "set (sortedDates ms groups) \<subseteq> set (map fst groups)"
  "distinct (map fst groups) \<Longrightarrow> distinct (sortedDates ms groups)"
  "sorted (map (\<lambda>d. - ms d) (sortedDates ms groups))"
  "length (sortedDates ms groups) = min 3 (length groups)"
proof -
  show "length (sortedDates ms groups) \<le> 3" by (simp add: sortedDates_def)
  show "set (sortedDates ms groups) \<subseteq> set (map fst groups)"
    unfolding sortedDates_def using set_take_subset[of 3 "sort_key (\<lambda>d. - ms d) (map fst groups)"]
    by simp
  show "distinct (map fst groups) \<Longrightarrow> distinct (sortedDates ms groups)"
    by (simp add: sortedDates_def distinct_take)
  have "sorted (map (\<lambda>d. - ms d) (sort_key (\<lambda>d. - ms d) (map fst groups)))"
    by (rule sorted_sort_key)
  then show "sorted (map (\<lambda>d. - ms d) (sortedDates ms groups))"
    unfolding sortedDates_def take_map[symmetric] by (rule sorted_wrt_take)
  show "length (sortedDates ms groups) = min 3 (length groups)"
    by (simp add: sortedDates_def min.commute)
qed

text \<open>A date that is dropped is no later than any date that is kept.\<close>

lemma sortedDates_latest:
  assumes "d \<in> set (map fst groups)" "d \<notin> set (sortedDates ms groups)"
    "k \<in> set (sortedDates ms groups)"
  shows "ms d \<le> ms k"
proof -
  let ?s = "sort_key (\<lambda>d. - ms d) (map fst groups)"
  have srt: "sorted (map (\<lambda>d. - ms d) ?s)" by (rule sorted_sort_key)
  have ds: "d \<in> set ?s" using assms(1) by simp
  have split: "?s = take 3 ?s @ drop 3 ?s" by simp
  from ds assms(2) have "d \<in> set (drop 3 ?s)"
    unfolding sortedDates_def by (metis UnE append_take_drop_id set_append)
  moreover have "k \<in> set (take 3 ?s)" using assms(3) by (simp add: sortedDates_def)
  moreover have "sorted (map (\<lambda>d. - ms d) (take 3 ?s) @ map (\<lambda>d. - ms d) (drop 3 ?s))"
    using srt by (metis append_take_drop_id map_append)
  ultimately have "- ms k \<le> - ms d"
    unfolding sorted_append by auto
  then show ?thesis by simp
qed

lemma validEntries_resolved:
  "list_all (\<lambda>t. es_backtestResult t = Some WIN \<or> es_backtestResult t = Some LOSS)
     (validEntries entries)"
  by (simp add: validEntries_def list_all_iff)

lemma tally_fold:
  "list_all (\<lambda>t. es_backtestResult t = Some WIN \<or> es_backtestResult t = Some LOSS) trades \<Longrightarrow>
   foldl tally (g, l, n) trades =
     (g + 2000 * int (length (filter (\<lambda>t. es_backtestResult t = Some WIN) trades)),
      l + 1000 * int (length (filter (\<lambda>t. es_backtestResult t = Some LOSS) trades)),
      n + 2000 * int (length (filter (\<lambda>t. es_backtestResult t = Some WIN) trades))
        - 1000 * int (length (filter (\<lambda>t. es_backtestResult t = Some LOSS) trades)))"
proof (induction trades arbitrary: g l n)
  case Nil
  then show ?case by simp
next
  case (Cons t trades)
  from Cons.prems have rest: "list_all (\<lambda>t. es_backtestResult t = Some WIN
      \<or> es_backtestResult t = Some LOSS) trades" by simp
  from Cons.prems have "es_backtestResult t = Some WIN \<or> es_backtestResult t = Some LOSS"
    by simp
  then show ?case
  proof
    assume w: "es_backtestResult t = Some WIN"
    then have "tally (g, l, n) t = (g + 2000, l, n + 2000)"
      by (simp add: tally_def RISK_PER_TRADE_def)
    with Cons.IH[OF rest, of "g + 2000" l "n + 2000"] w show ?thesis by simp
  next
    assume ls: "es_backtestResult t = Some LOSS"
    then have "tally (g, l, n) t = (g, l + 1000, n - 1000)"
      by (simp add: tally_def RISK_PER_TRADE_def)
    with Cons.IH[OF rest, of g "l + 1000" "n - 1000"] ls show ?thesis by simp
  qed
qed

lemma dailyTrades_eq:
  assumes "d \<in> set (map fst (groupByDate ld entries))"
  shows "dailyTrades (groupByDate ld entries) d =
     take 10 (sort_key (\<lambda>e. - es_time e)
                (filter (\<lambda>e. ld (es_time e) = d) (validEntries entries)))"
proof -
  from assms have "list_ex (\<lambda>e. ld (es_time e) = d) (validEntries entries)"
    unfolding groupByDate_keys(2) list_ex_iff by blast
  then show ?thesis by (simp add: dailyTrades_def groupByDate_lookup)
qed

lemma dailyTrades_resolved:
  assumes "d \<in> set (map fst (groupByDate ld entries))"
  shows "list_all (\<lambda>t. es_backtestResult t = Some WIN \<or> es_backtestResult t = Some LOSS)
     (dailyTrades (groupByDate ld entries) d)"
proof -
  have "set (dailyTrades (groupByDate ld entries) d) \<subseteq> set (validEntries entries)"
    unfolding dailyTrades_eq[OF assms]
    using set_take_subset[of 10 "sort_key (\<lambda>e. - es_time e)
                (filter (\<lambda>e. ld (es_time e) = d) (validEntries entries))"]
    by auto
  with validEntries_resolved[of entries] show ?thesis unfolding list_all_iff by blast
qed

lemma dailyStat_fields:
  assumes "d \<in> set (map fst (groupByDate ld entries))"
  shows "ds_date (dailyStat (groupByDate ld entries) d) = d"
    and "ds_trades (dailyStat (groupByDate ld entries) d) =
      take 10 (sort_key (\<lambda>e. - es_time e)
                (filter (\<lambda>e. ld (es_time e) = d) (validEntries entries)))"
    and "ds_tradeCount (dailyStat (groupByDate ld entries) d)
      = length (ds_trades (dailyStat (groupByDate ld entries) d))"
    and "ds_tradeCount (dailyStat (groupByDate ld entries) d) \<le> 10"
    and "ds_totalGain (dailyStat (groupByDate ld entries) d)
      = 2000 * int (length (filter (\<lambda>t. es_backtestResult t = Some WIN)
                              (ds_trades (dailyStat (groupByDate ld entries) d))))"
    and "ds_totalLoss (dailyStat (groupByDate ld entries) d)
      = 1000 * int (length (filter (\<lambda>t. es_backtestResult t = Some LOSS)
                              (ds_trades (dailyStat (groupByDate ld entries) d))))"
    and "ds_netPnL (dailyStat (groupByDate ld entries) d)
      = ds_totalGain (dailyStat (groupByDate ld entries) d)
        - ds_totalLoss (dailyStat (groupByDate ld entries) d)"
proof -
  note tf = tally_fold[OF dailyTrades_resolved[OF assms], of 0 0 0]
  show "ds_date (dailyStat (groupByDate ld entries) d) = d"
    by (simp add: dailyStat_def Let_def)
  show "ds_trades (dailyStat (groupByDate ld entries) d) =
      take 10 (sort_key (\<lambda>e. - es_time e)
                (filter (\<lambda>e. ld (es_time e) = d) (validEntries entries)))"
    by (simp add: dailyStat_def Let_def dailyTrades_eq[OF assms])
  show "ds_tradeCount (dailyStat (groupByDate ld entries) d)
      = length (ds_trades (dailyStat (groupByDate ld entries) d))"
    by (simp add: dailyStat_def Let_def)
  show "ds_tradeCount (dailyStat (groupByDate ld entries) d) \<le> 10"
    by (simp add: dailyStat_def Let_def dailyTrades_def)
  show "ds_totalGain (dailyStat (groupByDate ld entries) d)
      = 2000 * int (length (filter (\<lambda>t. es_backtestResult t = Some WIN)
                              (ds_trades (dailyStat (groupByDate ld entries) d))))"
    by (simp add: dailyStat_def Let_def tf)
  show "ds_totalLoss (dailyStat (groupByDate ld entries) d)
      = 1000 * int (length (filter (\<lambda>t. es_backtestResult t = Some LOSS)
                              (ds_trades (dailyStat (groupByDate ld entries) d))))"
    by (simp add: dailyStat_def Let_def tf)
  show "ds_netPnL (dailyStat (groupByDate ld entries) d)
      = ds_totalGain (dailyStat (groupByDate ld entries) d)
        - ds_totalLoss (dailyStat (groupByDate ld entries) d)"
    by (simp add: dailyStat_def Let_def tf)
qed

lemma dailyStats_dates:
  "map ds_date (dailyStats ld ms entries) = sortedDates ms (groupByDate ld entries)"
  by (simp add: dailyStats_def Let_def dailyStat_def comp_def)

lemma dailyStats_member:
  "st \<in> set (dailyStats ld ms entries) \<Longrightarrow>
   \<exists>d. d \<in> set (map fst (groupByDate ld entries)) \<and> st = dailyStat (groupByDate ld entries) d"
  using sortedDates_props(2)[where ms = ms and groups = "groupByDate ld entries"]
  by (auto simp: dailyStats_def Let_def)

lemma singleton_list: "distinct xs \<Longrightarrow> set xs = {d} \<Longrightarrow> xs = [d]"
proof -
  assume a: "distinct xs" "set xs = {d}"
  then have "length xs = 1" using distinct_card[of xs] by simp
  then obtain y where "xs = [y]" by (cases xs) auto
  with a(2) show ?thesis by simp
qed

lemma one_day:
  assumes "list_all (\<lambda>e. es_backtestResult e = Some WIN \<or> es_backtestResult e = Some LOSS) entries"
    "list_all (\<lambda>e. ld (es_time e) = d) entries" "length entries = 15"
  shows "map ds_date (dailyStats ld ms entries) = [d]"
    and "map ds_tradeCount (dailyStats ld ms entries) = [10]"
proof -
  from assms(1) have v: "validEntries entries = entries"
    by (simp add: validEntries_def list_all_iff)
  from assms(3) have ne: "entries \<noteq> []" by auto
  with assms(2) have "(\<lambda>e. ld (es_time e)) ` set entries = {d}"
    by (cases entries) (auto simp: list_all_iff)
  with groupByDate_keys[of ld entries] v
  have keys: "map fst (groupByDate ld entries) = [d]"
    by (intro singleton_list) simp_all
  then have sd: "sortedDates ms (groupByDate ld entries) = [d]"
    by (simp add: sortedDates_def)
  then show "map ds_date (dailyStats ld ms entries) = [d]"
    by (simp add: dailyStats_dates)
  have dk: "d \<in> set (map fst (groupByDate ld entries))" using keys by simp
  from assms(2) have all: "filter (\<lambda>e. ld (es_time e) = d) entries = entries"
    by (simp add: list_all_iff)
  have "ds_tradeCount (dailyStat (groupByDate ld entries) d) = 10"
    unfolding dailyStat_fields(3)[OF dk] dailyStat_fields(2)[OF dk] v all
    using assms(3) by simp
  then show "map ds_tradeCount (dailyStats ld ms entries) = [10]"
    by (simp add: dailyStats_def Let_def sd)
qed

text \<open>
  Claim C9. The rollup has at most three entries, for distinct dates of resolved
  signals, latest first, and a date left out is no later than any date kept. The
  trades of an entry are the ten latest (by timestamp, latest first) resolved signals of
  its date; \<open>tradeCount\<close> is their number, \<open>totalGain\<close> is \<open>2000\<close> per Win among
  them, \<open>totalLoss\<close> is \<open>1000\<close> per Loss and \<open>netPnL\<close> is the difference. Fifteen
  resolved signals on one date give one entry with \<open>tradeCount = 10\<close>.
\<close>

theorem daily_rollup:
  "length (dailyStats ld ms entries) \<le> 3
   \<and> distinct (map ds_date (dailyStats ld ms entries))
   \<and> set (map ds_date (dailyStats ld ms entries))
       \<subseteq> (\<lambda>e. ld (es_time e)) ` set (validEntries entries)
   \<and> sorted (map (\<lambda>d. - ms d) (map ds_date (dailyStats ld ms entries)))
   \<and> (d \<in> (\<lambda>e. ld (es_time e)) ` set (validEntries entries)
        \<and> d \<notin> set (map ds_date (dailyStats ld ms entries))
        \<and> k \<in> set (map ds_date (dailyStats ld ms entries)) \<longrightarrow> ms d \<le> ms k)
   \<and> (st \<in> set (dailyStats ld ms entries) \<longrightarrow>
        ds_trades st = take 10 (sort_key (\<lambda>e. - es_time e)
                         (filter (\<lambda>e. ld (es_time e) = ds_date st) (validEntries entries)))
        \<and> ds_tradeCount st = length (ds_trades st)
        \<and> ds_tradeCount st \<le> 10
        \<and> ds_totalGain st
            = 2000 * int (length (filter (\<lambda>t. es_backtestResult t = Some WIN) (ds_trades st)))
        \<and> ds_totalLoss st
            = 1000 * int (length (filter (\<lambda>t. es_backtestResult t = Some LOSS) (ds_trades st)))
        \<and> ds_netPnL st = ds_totalGain st - ds_totalLoss st)
   \<and> (list_all (\<lambda>e. es_backtestResult e = Some WIN \<or> es_backtestResult e = Some LOSS) entries
        \<and> list_all (\<lambda>e. ld (es_time e) = day) entries \<and> length entries = 15
        \<longrightarrow> map ds_date (dailyStats ld ms entries) = [day]
            \<and> map ds_tradeCount (dailyStats ld ms entries) = [10])"
proof (intro conjI impI)
  note dates = dailyStats_dates[of ld ms entries]
  note sp = sortedDates_props[where ms = ms and groups = "groupByDate ld entries"]
  note keys = groupByDate_keys[of ld entries]
  show "length (dailyStats ld ms entries) \<le> 3"
    using sp(1) unfolding dates[symmetric] by simp
  show "distinct (map ds_date (dailyStats ld ms entries))"
    unfolding dates using sp(3) keys(1) by blast
  show "set (map ds_date (dailyStats ld ms entries))
       \<subseteq> (\<lambda>e. ld (es_time e)) ` set (validEntries entries)"
    unfolding dates using sp(2) keys(2) by simp
  show "sorted (map (\<lambda>d. - ms d) (map ds_date (dailyStats ld ms entries)))"
    unfolding dates by (rule sp(4))
next
  assume a: "d \<in> (\<lambda>e. ld (es_time e)) ` set (validEntries entries)
        \<and> d \<notin> set (map ds_date (dailyStats ld ms entries))
        \<and> k \<in> set (map ds_date (dailyStats ld ms entries))"
  then have "d \<in> set (map fst (groupByDate ld entries))"
    "d \<notin> set (sortedDates ms (groupByDate ld entries))"
    "k \<in> set (sortedDates ms (groupByDate ld entries))"
    unfolding dailyStats_dates groupByDate_keys(2) by blast+
  then show "ms d \<le> ms k" by (rule sortedDates_latest)
next
  assume "st \<in> set (dailyStats ld ms entries)"
  then obtain dd where dd: "dd \<in> set (map fst (groupByDate ld entries))"
    "st = dailyStat (groupByDate ld entries) dd"
    using dailyStats_member by blast
  note f = dailyStat_fields[OF dd(1)]
  show "ds_trades st = take 10 (sort_key (\<lambda>e. - es_time e)
                         (filter (\<lambda>e. ld (es_time e) = ds_date st) (validEntries entries)))"
    unfolding dd(2) f(1) by (rule f(2))
  show "ds_tradeCount st = length (ds_trades st)" unfolding dd(2) by (rule f(3))
  show "ds_tradeCount st \<le> 10" unfolding dd(2) by (rule f(4))
  show "ds_totalGain st
            = 2000 * int (length (filter (\<lambda>t. es_backtestResult t = Some WIN) (ds_trades st)))"
    unfolding dd(2) by (rule f(5))
  show "ds_totalLoss st
            = 1000 * int (length (filter (\<lambda>t. es_backtestResult t = Some LOSS) (ds_trades st)))"
    unfolding dd(2) by (rule f(6))
  show "ds_netPnL st = ds_totalGain st - ds_totalLoss st" unfolding dd(2) by (rule f(7))
next
  assume a: "list_all (\<lambda>e. es_backtestResult e = Some WIN \<or> es_backtestResult e = Some LOSS) entries
        \<and> list_all (\<lambda>e. ld (es_time e) = day) entries \<and> length entries = 15"
  then have a1: "list_all (\<lambda>e. es_backtestResult e = Some WIN \<or> es_backtestResult e = Some LOSS)
      entries" and a2: "list_all (\<lambda>e. ld (es_time e) = day) entries"
    and a3: "length entries = 15" by blast+
  show "map ds_date (dailyStats ld ms entries) = [day]" by (rule one_day(1)[OF a1 a2 a3])
  show "map ds_tradeCount (dailyStats ld ms entries) = [10]" by (rule one_day(2)[OF a1 a2 a3])
qed

lemma fifteenTrades_facts:
  "list_all (\<lambda>e. es_backtestResult e = Some WIN \<or> es_backtestResult e = Some LOSS) fifteenTrades
   \<and> list_all (\<lambda>e. utcDate (es_time e) = 0) fifteenTrades \<and> length fifteenTrades = 15"
  by (simp add: fifteenTrades_def resolved_def mkSignal_def utcDate_def upt_rec)

lemma fiveDays_stats:
  "map ds_date (dailyStats utcDate utcDateMs fiveDays) = [4, 3, 2]
   \<and> map ds_tradeCount (dailyStats utcDate utcDateMs fiveDays) = [1, 1, 2]
   \<and> map ds_netPnL (dailyStats utcDate utcDateMs fiveDays) = [2000, - 1000, 4000]"
  by (simp add: dailyStats_def dailyStat_def dailyTrades_def sortedDates_def groupByDate_def
      validEntries_def fiveDays_def resolved_def mkSignal_def utcDate_def utcDateMs_def
      tally_def RISK_PER_TRADE_def Let_def)

theorem daily_rollup_witness:
  "map ds_date (dailyStats utcDate utcDateMs fifteenTrades) = [0]
   \<and> map ds_tradeCount (dailyStats utcDate utcDateMs fifteenTrades) = [10]
   \<and> length (dailyStats utcDate utcDateMs fiveDays) \<le> 3
   \<and> map ds_date (dailyStats utcDate utcDateMs fiveDays) = [4, 3, 2]
   \<and> map ds_netPnL (dailyStats utcDate utcDateMs fiveDays) = [2000, - 1000, 4000]"
proof -
  note t = daily_rollup[of utcDate utcDateMs fifteenTrades _ _ _ 0]
  note u = daily_rollup[of utcDate utcDateMs fiveDays]
  note w12 = t[THEN conjunct2, THEN conjunct2, THEN conjunct2, THEN conjunct2, THEN conjunct2,
      THEN conjunct2, rule_format, OF fifteenTrades_facts]
  from w12 u[THEN conjunct1] fiveDays_stats show ?thesis by blast
qed

section \<open>Signal emission\<close>

lemma entryAt_emits:
  "entryAt data obs fvgs tf lastT i \<noteq> None \<longleftrightarrow>
     fst (confluence (data ! i) obs fvgs) \<ge> 4
     \<and> c_time (data ! i) - lastT > 600
     \<and> (isBullish data i
          \<and> (touchingBullOB obs (data ! i) \<noteq> None \<or> touchingBullFVG fvgs (data ! i) \<noteq> None)
        \<or> \<not> isBullish data i
          \<and> (touchingBearOB obs (data ! i) \<noteq> None \<or> touchingBearFVG fvgs (data ! i) \<noteq> None))"
  unfolding entryAt_def Let_def COOLDOWN_def by (simp split: if_splits) blast

lemma entryAt_fields:
  assumes "entryAt data obs fvgs tf lastT i = Some s"
  shows "es_time s = c_time (data ! i) \<and> (es_type s = LONG \<longleftrightarrow> isBullish data i)
   \<and> es_price s = c_close (data ! i)
   \<and> es_score s = fst (confluence (data ! i) obs fvgs)
   \<and> es_confluences s = snd (confluence (data ! i) obs fvgs)"
proof -
  from assms have "entryAt data obs fvgs tf lastT i \<noteq> None" by simp
  then have gate: "fst (confluence (data ! i) obs fvgs) \<ge> 4"
      "c_time (data ! i) - lastT > COOLDOWN"
    and dir: "isBullish data i
          \<and> (touchingBullOB obs (data ! i) \<noteq> None \<or> touchingBullFVG fvgs (data ! i) \<noteq> None)
        \<or> \<not> isBullish data i
          \<and> (touchingBearOB obs (data ! i) \<noteq> None \<or> touchingBearFVG fvgs (data ! i) \<noteq> None)"
    unfolding entryAt_emits COOLDOWN_def by simp_all
  have s: "s = the (entryAt data obs fvgs tf lastT i)" using assms by simp
  show ?thesis
  proof (cases "isBullish data i")
    case True
    with dir have t:
      "touchingBullOB obs (data ! i) \<noteq> None \<or> touchingBullFVG fvgs (data ! i) \<noteq> None"
      by blast
    show ?thesis unfolding s entryAt_def Let_def using gate True t by simp
  next
    case False
    with dir have t:
      "touchingBearOB obs (data ! i) \<noteq> None \<or> touchingBearFVG fvgs (data ! i) \<noteq> None"
      by blast
    show ?thesis unfolding s entryAt_def Let_def using gate False t by simp
  qed
qed

lemma entriesBefore_start: "entriesBefore data obs fvgs tf 100 = ([], 0)"
  by (simp add: entriesBefore_def)

lemma entriesBefore_Suc:
  "100 \<le> i \<Longrightarrow>
   entriesBefore data obs fvgs tf (Suc i) =
     entryStep data obs fvgs tf (entriesBefore data obs fvgs tf i) i"
  by (simp add: entriesBefore_def)

lemma entryStep_signals:
  "fst (entryStep data obs fvgs tf st i) =
     fst st @ (case entryAt data obs fvgs tf (snd st) i of None \<Rightarrow> [] | Some s \<Rightarrow> [s])"
  by (cases "entryAt data obs fvgs tf (snd st) i") (simp_all add: entryStep_def)

text \<open>Successive signals are more than the cooldown apart.\<close>

lemma spaced_snoc:
  assumes "\<forall>k. Suc k < length S \<longrightarrow> es_time (S ! Suc k) - es_time (S ! k) > 600"
    "S \<noteq> [] \<longrightarrow> es_time s - es_time (last S) > 600"
  shows "\<forall>k. Suc k < length (S @ [s]) \<longrightarrow>
           es_time ((S @ [s]) ! Suc k) - es_time ((S @ [s]) ! k) > 600"
proof (intro allI impI)
  fix k assume k: "Suc k < length (S @ [s])"
  show "es_time ((S @ [s]) ! Suc k) - es_time ((S @ [s]) ! k) > 600"
  proof (cases "Suc k < length S")
    case True
    with assms(1) show ?thesis by (simp add: nth_append)
  next
    case False
    with k have e: "Suc k = length S" by simp
    then have ne: "S \<noteq> []" by auto
    from e have "length S - 1 = k" by simp
    then have "last S = S ! k" using ne by (simp add: last_conv_nth)
    with assms(2) ne e show ?thesis by (simp add: nth_append)
  qed
qed

lemma entryStep_invariant:
  assumes "snd st = (if fst st = [] then 0 else es_time (last (fst st)))"
    "\<forall>k. Suc k < length (fst st) \<longrightarrow> es_time (fst st ! Suc k) - es_time (fst st ! k) > 600"
  shows "snd (entryStep data obs fvgs tf st i)
           = (if fst (entryStep data obs fvgs tf st i) = [] then 0
              else es_time (last (fst (entryStep data obs fvgs tf st i))))
    \<and> (\<forall>k. Suc k < length (fst (entryStep data obs fvgs tf st i)) \<longrightarrow>
           es_time (fst (entryStep data obs fvgs tf st i) ! Suc k)
           - es_time (fst (entryStep data obs fvgs tf st i) ! k) > 600)"
proof (cases "entryAt data obs fvgs tf (snd st) i")
  case None
  then have "entryStep data obs fvgs tf st i = st" by (simp add: entryStep_def)
  with assms show ?thesis by simp
next
  case (Some s)
  then have step: "entryStep data obs fvgs tf st i = (fst st @ [s], c_time (data ! i))"
    by (simp add: entryStep_def)
  from entryAt_fields[OF Some] have t: "es_time s = c_time (data ! i)" by blast
  from Some have "entryAt data obs fvgs tf (snd st) i \<noteq> None" by simp
  then have "c_time (data ! i) - snd st > 600" unfolding entryAt_emits by blast
  with assms(1) t have "fst st \<noteq> [] \<longrightarrow> es_time s - es_time (last (fst st)) > 600"
    by (cases "fst st = []") simp_all
  from spaced_snoc[OF assms(2) this] show ?thesis unfolding step using t by simp
qed

lemma entriesBefore_invariant:
  "snd (entriesBefore data obs fvgs tf i)
     = (if fst (entriesBefore data obs fvgs tf i) = [] then 0
        else es_time (last (fst (entriesBefore data obs fvgs tf i))))
   \<and> (\<forall>k. Suc k < length (fst (entriesBefore data obs fvgs tf i)) \<longrightarrow>
         es_time (fst (entriesBefore data obs fvgs tf i) ! Suc k)
         - es_time (fst (entriesBefore data obs fvgs tf i) ! k) > 600)"
proof (induction i)
  case 0
  then show ?case by (simp add: entriesBefore_def)
next
  case (Suc i)
  show ?case
  proof (cases "100 \<le> i")
    case True
    from Suc show ?thesis unfolding entriesBefore_Suc[OF True]
      by (intro entryStep_invariant) blast+
  next
    case False
    then have "entriesBefore data obs fvgs tf (Suc i) = ([], 0)"
      by (simp add: entriesBefore_def)
    then show ?thesis by simp
  qed
qed

lemma detectEntries_entriesBefore:
  "detectEntries data obs fvgs tf = fst (entriesBefore data obs fvgs tf (length data))"
  by (simp add: detectEntries_def entriesBefore_def)

lemma foldl_close_sum:
  "foldl (\<lambda>a b. a + c_close b) a xs = a + sum_list (map c_close xs)"
  by (induction xs arbitrary: a) simp_all

lemma cooldownSeries_bars:
  "length cooldownSeries = 103"
  "cooldownSeries ! 100 = bar 30000 1 2 1 2"
  "cooldownSeries ! 101 = bar 30300 1 2 1 2"
  "cooldownSeries ! 102 = bar 30600 1 2 1 2"
  by (simp_all add: cooldownSeries_def nth_append)

lemma bar_fields:
  "c_time (bar t opn h l c) = t" "c_open (bar t opn h l c) = opn" "c_high (bar t opn h l c) = h"
  "c_low (bar t opn h l c) = l" "c_close (bar t opn h l c) = c"
  by (simp_all add: bar_def)

lemma flat_closes: "map c_close (map (\<lambda>k. bar (300 * int k) 1 1 1 1) ks) = map (\<lambda>k. 1) ks"
  by (simp add: bar_def)

lemma cooldownSeries_slices:
  "slice (100 - 50) 100 cooldownSeries = map (\<lambda>k. bar (300 * int k) 1 1 1 1) [50 ..< 100]"
  "slice (101 - 50) 101 cooldownSeries
     = map (\<lambda>k. bar (300 * int k) 1 1 1 1) [51 ..< 100] @ [bar 30000 1 2 1 2]"
  "slice (102 - 50) 102 cooldownSeries
     = map (\<lambda>k. bar (300 * int k) 1 1 1 1) [52 ..< 100]
       @ [bar 30000 1 2 1 2, bar 30300 1 2 1 2]"
  by (simp_all add: slice_def cooldownSeries_def drop_map take_map)

lemma cooldownSeries_bullish:
  "isBullish cooldownSeries 100" "isBullish cooldownSeries 101" "isBullish cooldownSeries 102"
  unfolding isBullish_def Let_def cooldownSeries_slices cooldownSeries_bars foldl_close_sum
  by (simp_all add: flat_closes sum_list_triv bar_fields)

lemma cooldownSeries_touch:
  "touchingBullFVG cooldownGaps (bar t 1 2 1 2) = (if 0 < t then Some (mkGap 0 0 10 Bullish True) else None)"
  "touchingBearFVG cooldownGaps (bar t 1 2 1 2) = None"
  "touchingBullOB [] (bar t 1 2 1 2) = None"
  "touchingBearOB [] (bar t 1 2 1 2) = None"
  by (simp_all add: touchingBullFVG_def touchingBearFVG_def touchingBullOB_def
      touchingBearOB_def cooldownGaps_def mkGap_def bar_def)

lemma cooldownSeries_score:
  "fst (confluence (bar 30000 1 2 1 2) [] cooldownGaps) = 7"
  "fst (confluence (bar 30300 1 2 1 2) [] cooldownGaps) = 7"
  "fst (confluence (bar 30600 1 2 1 2) [] cooldownGaps) = 7"
  unfolding confluence_def Let_def cooldownSeries_touch bar_fields
  by (simp_all add: mkGap_def sessionBonus_def getSession_def getUTCHours_def)

lemma cooldownSeries_first:
  "entryAt cooldownSeries [] cooldownGaps ''5m'' 0 100 \<noteq> None"
  unfolding entryAt_emits cooldownSeries_bars
  using cooldownSeries_bullish(1)
  by (simp add: cooldownSeries_score cooldownSeries_touch bar_fields)

lemma cooldownSeries_blocked:
  "entryAt cooldownSeries [] cooldownGaps ''5m'' 30000 101 = None"
  "entryAt cooldownSeries [] cooldownGaps ''5m'' 30000 102 = None"
proof -
  have "\<not> entryAt cooldownSeries [] cooldownGaps ''5m'' 30000 101 \<noteq> None"
    unfolding entryAt_emits cooldownSeries_bars by (simp add: bar_fields)
  then show "entryAt cooldownSeries [] cooldownGaps ''5m'' 30000 101 = None" by simp
  have "\<not> entryAt cooldownSeries [] cooldownGaps ''5m'' 30000 102 \<noteq> None"
    unfolding entryAt_emits cooldownSeries_bars by (simp add: bar_fields)
  then show "entryAt cooldownSeries [] cooldownGaps ''5m'' 30000 102 = None" by simp
qed

lemma cooldownSeries_entries:
  "map es_time (detectEntries cooldownSeries [] cooldownGaps ''5m'') = [30000]"
proof -
  from cooldownSeries_first obtain s where
    s: "entryAt cooldownSeries [] cooldownGaps ''5m'' 0 100 = Some s" by blast
  from entryAt_fields[OF s] have t: "es_time s = 30000"
    by (simp add: cooldownSeries_bars bar_fields)
  have e101: "entriesBefore cooldownSeries [] cooldownGaps ''5m'' 101 = ([s], 30000)"
    using entriesBefore_Suc[of 100 cooldownSeries "[]" cooldownGaps "''5m''"]
    by (simp add: entriesBefore_start entryStep_def s cooldownSeries_bars bar_fields)
  have e102: "entriesBefore cooldownSeries [] cooldownGaps ''5m'' 102 = ([s], 30000)"
    using entriesBefore_Suc[of 101 cooldownSeries "[]" cooldownGaps "''5m''"]
    by (simp add: e101 entryStep_def cooldownSeries_blocked)
  have e103: "entriesBefore cooldownSeries [] cooldownGaps ''5m'' 103 = ([s], 30000)"
    using entriesBefore_Suc[of 102 cooldownSeries "[]" cooldownGaps "''5m''"]
    by (simp add: e102 entryStep_def cooldownSeries_blocked)
  show ?thesis
    by (simp add: detectEntries_entriesBefore cooldownSeries_bars(1) e103 t)
qed

text \<open>
  Claim C4, as amended. At bar \<open>i\<close> a signal is pushed exactly when the score is at least
  \<open>4\<close>, more than \<open>600\<close> seconds lie between the bar's timestamp and \<open>lastSignalTime\<close>,
  and the direction requirement holds: a bullish bias with a bullish zone or gap touch
  (a Long), or no bullish bias with a bearish zone or gap touch (a Short). The signal
  carries the bar's timestamp. \<open>lastSignalTime\<close> is \<open>0\<close> until a signal is pushed and the
  timestamp of the last pushed signal afterwards, so consecutive signals of the result
  are more than \<open>600\<close> seconds apart.
\<close>

theorem signal_emission_gate:
  "(entryAt data obs fvgs tf lastT i \<noteq> None \<longleftrightarrow>
       fst (confluence (data ! i) obs fvgs) \<ge> 4
       \<and> c_time (data ! i) - lastT > 600
       \<and> (isBullish data i
            \<and> (touchingBullOB obs (data ! i) \<noteq> None \<or> touchingBullFVG fvgs (data ! i) \<noteq> None)
          \<or> \<not> isBullish data i
            \<and> (touchingBearOB obs (data ! i) \<noteq> None \<or> touchingBearFVG fvgs (data ! i) \<noteq> None)))
   \<and> (entryAt data obs fvgs tf lastT i = Some s \<longrightarrow>
        es_time s = c_time (data ! i) \<and> (es_type s = LONG \<longleftrightarrow> isBullish data i))
   \<and> detectEntries data obs fvgs tf = fst (entriesBefore data obs fvgs tf (length data))
   \<and> entriesBefore data obs fvgs tf 100 = ([], 0)
   \<and> (100 \<le> i \<longrightarrow>
        fst (entriesBefore data obs fvgs tf (Suc i)) =
          fst (entriesBefore data obs fvgs tf i)
          @ (case entryAt data obs fvgs tf (snd (entriesBefore data obs fvgs tf i)) i of
               None \<Rightarrow> [] | Some s \<Rightarrow> [s]))
   \<and> snd (entriesBefore data obs fvgs tf i)
       = (if fst (entriesBefore data obs fvgs tf i) = [] then 0
          else es_time (last (fst (entriesBefore data obs fvgs tf i))))
   \<and> (Suc k < length (detectEntries data obs fvgs tf) \<longrightarrow>
        es_time (detectEntries data obs fvgs tf ! Suc k)
        - es_time (detectEntries data obs fvgs tf ! k) > 600)"
proof (intro conjI impI)
  show "entryAt data obs fvgs tf lastT i \<noteq> None \<longleftrightarrow>
       fst (confluence (data ! i) obs fvgs) \<ge> 4
       \<and> c_time (data ! i) - lastT > 600
       \<and> (isBullish data i
            \<and> (touchingBullOB obs (data ! i) \<noteq> None \<or> touchingBullFVG fvgs (data ! i) \<noteq> None)
          \<or> \<not> isBullish data i
            \<and> (touchingBearOB obs (data ! i) \<noteq> None \<or> touchingBearFVG fvgs (data ! i) \<noteq> None))"
    by (rule entryAt_emits)
  show "detectEntries data obs fvgs tf = fst (entriesBefore data obs fvgs tf (length data))"
    by (rule detectEntries_entriesBefore)
  show "entriesBefore data obs fvgs tf 100 = ([], 0)" by (rule entriesBefore_start)
  show "snd (entriesBefore data obs fvgs tf i)
       = (if fst (entriesBefore data obs fvgs tf i) = [] then 0
          else es_time (last (fst (entriesBefore data obs fvgs tf i))))"
    using entriesBefore_invariant[of data obs fvgs tf i] by (rule conjunct1)
next
  assume a: "entryAt data obs fvgs tf lastT i = Some s"
  from entryAt_fields[OF a] show "es_time s = c_time (data ! i)" by (rule conjunct1)
  from entryAt_fields[OF a] show "es_type s = LONG \<longleftrightarrow> isBullish data i"
    by (elim conjE)
next
  assume "100 \<le> i"
  then show "fst (entriesBefore data obs fvgs tf (Suc i)) =
          fst (entriesBefore data obs fvgs tf i)
          @ (case entryAt data obs fvgs tf (snd (entriesBefore data obs fvgs tf i)) i of
               None \<Rightarrow> [] | Some s \<Rightarrow> [s])"
    by (simp only: entriesBefore_Suc entryStep_signals)
next
  assume "Suc k < length (detectEntries data obs fvgs tf)"
  then show "es_time (detectEntries data obs fvgs tf ! Suc k)
        - es_time (detectEntries data obs fvgs tf ! k) > 600"
    using entriesBefore_invariant[of data obs fvgs tf "length data", THEN conjunct2]
    unfolding detectEntries_entriesBefore by blast
qed

theorem signal_emission_gate_witness:
  "entryAt cooldownSeries [] cooldownGaps ''5m'' 0 100 \<noteq> None
   \<and> entryAt cooldownSeries [] cooldownGaps ''5m'' 30000 101 = None
   \<and> map es_time (detectEntries cooldownSeries [] cooldownGaps ''5m'') = [30000]"
proof -
  note t = signal_emission_gate[of cooldownSeries "[]" cooldownGaps "''5m''" 0 100]
  note u = signal_emission_gate[of cooldownSeries "[]" cooldownGaps "''5m''" 30000 101]
  have c100: "fst (confluence (cooldownSeries ! 100) [] cooldownGaps) \<ge> 4
       \<and> c_time (cooldownSeries ! 100) - 0 > 600
       \<and> (isBullish cooldownSeries 100
            \<and> (touchingBullOB [] (cooldownSeries ! 100) \<noteq> None
                \<or> touchingBullFVG cooldownGaps (cooldownSeries ! 100) \<noteq> None)
          \<or> \<not> isBullish cooldownSeries 100
            \<and> (touchingBearOB [] (cooldownSeries ! 100) \<noteq> None
                \<or> touchingBearFVG cooldownGaps (cooldownSeries ! 100) \<noteq> None))"
    unfolding cooldownSeries_bars using cooldownSeries_bullish(1)
    by (simp add: cooldownSeries_score cooldownSeries_touch bar_fields)
  have w1: "entryAt cooldownSeries [] cooldownGaps ''5m'' 0 100 \<noteq> None"
    by (rule t[THEN conjunct1, THEN iffD2, OF c100])
  have "\<not> entryAt cooldownSeries [] cooldownGaps ''5m'' 30000 101 \<noteq> None"
    unfolding u[THEN conjunct1] cooldownSeries_bars by (simp add: bar_fields)
  then have w2: "entryAt cooldownSeries [] cooldownGaps ''5m'' 30000 101 = None" by simp
  from w1 w2 cooldownSeries_entries show ?thesis by (intro conjI)
qed

text \<open>
  Claim C4 as stated lets a signal through once at least \<open>600\<close> seconds have passed. Bar
  102 of the sample series has score \<open>7\<close>, a bullish bias and a bullish gap touch, and lies
  exactly \<open>600\<close> seconds after the signal of bar 100; it emits nothing.
\<close>

theorem cooldown_boundary_counterexample:
  "fst (confluence (cooldownSeries ! 102) [] cooldownGaps) \<ge> 4
   \<and> c_time (cooldownSeries ! 102) - 30000 \<ge> 600
   \<and> isBullish cooldownSeries 102
   \<and> touchingBullFVG cooldownGaps (cooldownSeries ! 102) \<noteq> None
   \<and> map es_time (detectEntries cooldownSeries [] cooldownGaps ''5m'') = [30000]
   \<and> entryAt cooldownSeries [] cooldownGaps ''5m'' 30000 102 = None"
  using cooldownSeries_bullish(3) cooldownSeries_entries cooldownSeries_blocked(2)
  by (simp add: cooldownSeries_bars cooldownSeries_score cooldownSeries_touch bar_fields)

section \<open>Swing structure\<close>

lemma first_None: "first xs = None \<longleftrightarrow> xs = []"
  by (cases xs) (simp_all add: first_def)

lemma structStep_points:
  assumes "snd tp = High \<longrightarrow> lh \<noteq> None" "snd tp = Low \<longrightarrow> ll \<noteq> None"
  shows "length (snd (snd (structStep data (lh, ll, pts) tp))) = Suc (length pts)
    \<and> (lh \<noteq> None \<longrightarrow> fst (structStep data (lh, ll, pts) tp) \<noteq> None)
    \<and> (ll \<noteq> None \<longrightarrow> fst (snd (structStep data (lh, ll, pts) tp)) \<noteq> None)"
proof (cases tp)
  case (Pair p ty)
  show ?thesis
  proof (cases ty)
    case High
    with assms Pair obtain h where "lh = Some h" by auto
    with Pair High show ?thesis by (simp add: structStep_def Let_def)
  next
    case Low
    with assms Pair obtain l where "ll = Some l" by auto
    with Pair Low show ?thesis by (simp add: structStep_def Let_def)
  qed
qed

lemma structFold_points:
  "list_all (\<lambda>tp. snd tp = High \<longrightarrow> lh \<noteq> None) ps \<Longrightarrow>
   list_all (\<lambda>tp. snd tp = Low \<longrightarrow> ll \<noteq> None) ps \<Longrightarrow>
   length (snd (snd (foldl (structStep data) (lh, ll, pts) ps))) = length pts + length ps"
proof (induction ps arbitrary: lh ll pts)
  case Nil
  then show ?case by simp
next
  case (Cons tp ps)
  obtain lh' ll' pts' where st: "structStep data (lh, ll, pts) tp = (lh', ll', pts')"
    by (cases "structStep data (lh, ll, pts) tp") auto
  from Cons.prems have h: "snd tp = High \<longrightarrow> lh \<noteq> None" "snd tp = Low \<longrightarrow> ll \<noteq> None"
    by simp_all
  from structStep_points[OF h, of data pts] st
  have len: "length pts' = Suc (length pts)" and keep: "lh \<noteq> None \<longrightarrow> lh' \<noteq> None"
    "ll \<noteq> None \<longrightarrow> ll' \<noteq> None" by simp_all
  from Cons.prems keep have
    "list_all (\<lambda>tp. snd tp = High \<longrightarrow> lh' \<noteq> None) ps"
    "list_all (\<lambda>tp. snd tp = Low \<longrightarrow> ll' \<noteq> None) ps"
    by (auto simp: list_all_iff)
  from Cons.IH[OF this, of pts'] show ?case by (simp add: st len)
qed

lemma detectStructure_length:
  "length (detectStructure data w) = length (pivotHighs data w) + length (pivotLows data w)"
proof -
  have a: "list_all (\<lambda>tp. snd tp = High \<longrightarrow> first (pivotHighs data w) \<noteq> None) (allPivots data w)"
    unfolding first_None by (auto simp: list_all_iff allPivots_def)
  have b: "list_all (\<lambda>tp. snd tp = Low \<longrightarrow> first (pivotLows data w) \<noteq> None) (allPivots data w)"
    unfolding first_None by (auto simp: list_all_iff allPivots_def)
  from structFold_points[OF a b, of data "[]"] show ?thesis
    by (simp add: detectStructure_def Let_def allPivots_def)
qed

lemma peakSeries_pivots:
  "pivotHighs peakSeries 5 = [\<lparr>p_index = 5, p_price = 16\<rparr>]"
  "pivotLows peakSeries 5 = []"
  by (simp_all add: pivotHighs_def pivotLows_def isHigh_def isLow_def peakSeries_def bar_def
      upt_rec)

text \<open>
  Claim C2 says that the first pivot high and the first pivot low only seed the trackers
  and emit no point, so that the output is at least two shorter than the number of
  pivots. In the code the trackers are initialised to the first pivot of each kind
  before the loop, so the seeding branch \<^verbatim>\<open>if (!lastHigh)\<close> is never taken: every
  pivot emits a point, the first of each kind being compared with itself and classified
  \<open>LH\<close> (or \<open>HL\<close>). The output has as many points as there are pivots; the series with
  one peak has one pivot and one point.
\<close>

theorem first_pivot_emits_point:
  "length (detectStructure data swingLength)
     = length (pivotHighs data swingLength) + length (pivotLows data swingLength)
   \<and> pivotHighs peakSeries 5 = [\<lparr>p_index = 5, p_price = 16\<rparr>]
   \<and> pivotLows peakSeries 5 = []
   \<and> detectStructure peakSeries 5
       = [\<lparr>sp_time = 1500, sp_price = 16, sp_type = LH, sp_direction = Bearish\<rparr>]"
proof -
  have "detectStructure peakSeries 5
       = [\<lparr>sp_time = 1500, sp_price = 16, sp_type = LH, sp_direction = Bearish\<rparr>]"
    by (simp add: detectStructure_def allPivots_def peakSeries_pivots first_def structStep_def
        Let_def) (simp add: peakSeries_def bar_def)
  with detectStructure_length[of data swingLength] peakSeries_pivots show ?thesis
    by (intro conjI)
qed

end
